theory Spec2Isabelle
  imports Main
begin

section \<open>Signal interface, trace sink and the event log\<close>

text \<open>
  The three drivers of the repository (the formal driver \<^verbatim>\<open>formal_main.cpp\<close>, the basic
  driver \<^verbatim>\<open>verilator_tb_mlow_codec.cpp\<close> and the comprehensive driver
  \<^verbatim>\<open>verilator_tb_mlow_codec_comprehensive.cpp\<close>) poke the input ports of a generated
  hardware model, call its \<^verbatim>\<open>eval()\<close> and hand snapshots to a VCD trace object. The model
  and the trace object are external: every call a driver makes on them is recorded, in
  program order, in an event log, and the properties of a run are properties of that log.
\<close>

text \<open>The input ports of \<^verbatim>\<open>Vformal_testbench\<close> that the formal driver assigns.\<close>

datatype port =
    reset_n_i | clk_i | audio_data_i | audio_valid_i | audio_ready_i
  | frame_bus_ready_i | frame_ready_i | packet_ready_i
  | encode_mode_i | bitrate_sel_i | bandwidth_sel_i

text \<open>What a driver writes to standard output: the pieces of one \<^verbatim>\<open>printf\<close> or of one
  chain of stream insertions.\<close>

datatype out = Str string | Num int | Endl

text \<open>
  The calls on the external objects. \<open>Open name ok\<close> and \<open>Close ok\<close> carry the outcome the
  environment gives to \<^verbatim>\<open>open\<close> and \<^verbatim>\<open>close\<close> of the trace object (both return
  \<^verbatim>\<open>void\<close>; the drivers never ask). \<open>Eval p\<close> carries what the model sees at that
  evaluation: the values of its input ports. \<open>GotFinish b\<close> is a call of
  \<^verbatim>\<open>Verilated::gotFinish()\<close> with its answer.
\<close>

datatype 'p event =
    Open string bool
  | Write port int
  | Eval 'p
  | Dump int
  | GotFinish bool
  | Close bool
  | DeleteTrace
  | Final
  | DeleteModel
  | Print "out list"

text \<open>The outcome the environment gives to the trace file operations.\<close>

record env =
  open_ok :: bool
  close_ok :: bool

text \<open>What a run of \<^verbatim>\<open>main\<close> leaves behind: the calls it made and its return value.\<close>

record 'p result =
  events :: "'p event list"
  exit_code :: int

subsection \<open>Projections of a log\<close>

definition dumps :: "'p event list \<Rightarrow> int list" where
  "dumps es = concat (map (\<lambda>e. case e of Dump t \<Rightarrow> [t] | _ \<Rightarrow> []) es)"

definition evals :: "'p event list \<Rightarrow> 'p list" where
  "evals es = concat (map (\<lambda>e. case e of Eval p \<Rightarrow> [p] | _ \<Rightarrow> []) es)"

definition writes_to :: "port \<Rightarrow> 'p event list \<Rightarrow> int list" where
  "writes_to q es = concat (map (\<lambda>e. case e of Write p v \<Rightarrow> (if p = q then [v] else []) | _ \<Rightarrow> []) es)"

definition reported :: "'p event list \<Rightarrow> int list" where
  "reported es = concat (map (\<lambda>e. case e of Print os \<Rightarrow> concat (map (\<lambda>x. case x of Num n \<Rightarrow> [n] | _ \<Rightarrow> []) os) | _ \<Rightarrow> []) es)"

definition printed :: "'p event list \<Rightarrow> out list list" where
  "printed es = concat (map (\<lambda>e. case e of Print os \<Rightarrow> [os] | _ \<Rightarrow> []) es)"

text \<open>\<open>steps\<close> keeps of a log the evaluations and the captures.\<close>

definition steps :: "'p event list \<Rightarrow> 'p event list" where
  "steps es = filter (\<lambda>e. case e of Eval p \<Rightarrow> True | Dump t \<Rightarrow> True | _ \<Rightarrow> False) es"

text \<open>\<open>checks\<close> keeps the answers of the calls of \<^verbatim>\<open>Verilated::gotFinish()\<close>.\<close>

definition checks :: "'p event list \<Rightarrow> bool list" where
  "checks es = concat (map (\<lambda>e. case e of GotFinish b \<Rightarrow> [b] | _ \<Rightarrow> []) es)"

text \<open>
  \<open>teardown\<close> keeps of a log the calls that end a run: the close and the release of the
  trace object, the model's \<^verbatim>\<open>final()\<close> and the release of the model.
\<close>

definition teardown :: "'p event list \<Rightarrow> 'p event list" where
  "teardown es = filter (\<lambda>e. case e of Close ok \<Rightarrow> True | DeleteTrace \<Rightarrow> True
                                       | Final \<Rightarrow> True | DeleteModel \<Rightarrow> True | _ \<Rightarrow> False) es"

text \<open>\<open>before a b es\<close>: the call \<open>a\<close> occurs in \<open>es\<close> ahead of the first call \<open>b\<close>.\<close>

definition before :: "'p event \<Rightarrow> 'p event \<Rightarrow> 'p event list \<Rightarrow> bool" where
  "before a b es = (a \<in> set (takeWhile (\<lambda>e. e \<noteq> b) es))"

section \<open>The formal driver: \<^verbatim>\<open>src/formal/formal_main.cpp\<close>\<close>

text \<open>The driver's state: the input ports of the model and the log of calls so far.\<close>

record fsim =
  tb :: "port \<Rightarrow> int"
  flog :: "(port \<Rightarrow> int) event list"

text \<open>\<^verbatim>\<open>tb->p = v;\<close>\<close>

definition set_port :: "port \<Rightarrow> int \<Rightarrow> fsim \<Rightarrow> fsim" where
  "set_port p v s = s\<lparr>tb := (tb s)(p := v), flog := flog s @ [Write p v]\<rparr>"

text \<open>\<^verbatim>\<open>tb->eval();\<close>\<close>

definition eval_tb :: "fsim \<Rightarrow> fsim" where
  "eval_tb s = s\<lparr>flog := flog s @ [Eval (tb s)]\<rparr>"

text \<open>\<^verbatim>\<open>trace->dump(t);\<close>\<close>

definition dump :: "int \<Rightarrow> fsim \<Rightarrow> fsim" where
  "dump t s = s\<lparr>flog := flog s @ [Dump t]\<rparr>"

text \<open>
  One clock cycle with cycle index \<open>c\<close>: the six statements that open the body of both
  loops (lines 43-49 with \<open>c = i\<close>, lines 57-63 with \<open>c = i + 5\<close>).
\<close>

definition step_cycle :: "int \<Rightarrow> fsim \<Rightarrow> fsim" where
  "step_cycle c s =
     dump (c * 2 + 1) (eval_tb (set_port clk_i 1
       (dump (c * 2) (eval_tb (set_port clk_i 0 s)))))"

text \<open>A sequence of port assignments, applied in order.\<close>

fun apply_writes :: "(port \<times> int) list \<Rightarrow> fsim \<Rightarrow> fsim" where
  "apply_writes [] s = s"
| "apply_writes ((p, v) # ws) s = apply_writes ws (set_port p v s)"

text \<open>
  The stimulus of lines 66-74, as the assignments that iteration \<open>i\<close> of the main loop
  makes. The data bus is assigned values between \<open>0x1234\<close> and \<open>0x5687\<close> only.
\<close>

definition stimulus :: "int \<Rightarrow> (port \<times> int) list" where
  "stimulus i =
     (if i \<ge> 10 \<and> i < 26 then [(audio_data_i, 0x1234 + (i - 10)), (audio_valid_i, 1)]
      else if i \<ge> 50 \<and> i < 66 then [(audio_data_i, 0x5678 + (i - 50)), (audio_valid_i, 1)]
      else [(audio_valid_i, 0)])"

text \<open>Lines 30-39.\<close>

definition init_signals :: "fsim \<Rightarrow> fsim" where
  "init_signals s =
     set_port bandwidth_sel_i 1 (set_port bitrate_sel_i 5 (set_port encode_mode_i 1
       (set_port packet_ready_i 1 (set_port frame_ready_i 1 (set_port frame_bus_ready_i 1
         (set_port audio_ready_i 1 (set_port audio_valid_i 0 (set_port audio_data_i 0
           (set_port reset_n_i 0 s)))))))))"

text \<open>
  The reset loop of lines 42-50, \<^verbatim>\<open>for (int i = 0; i < r; i++)\<close>, entered at \<open>i\<close>.
\<close>

function reset_loop :: "int \<Rightarrow> int \<Rightarrow> fsim \<Rightarrow> fsim" where
  "reset_loop r i s = (if i < r then reset_loop r (i + 1) (step_cycle i s) else s)"
  by pat_completeness auto
termination
  by (relation "measure (\<lambda>(r, i, s). nat (r - i))") auto

text \<open>
  The main loop of lines 56-75, \<^verbatim>\<open>for (int i = 0; i < n; i++)\<close>, entered at \<open>i\<close>: the
  clock cycle with index \<open>i + r\<close> first, the stimulus of \<open>i\<close> after it.
\<close>

function run_loop :: "(int \<Rightarrow> (port \<times> int) list) \<Rightarrow> int \<Rightarrow> int \<Rightarrow> int \<Rightarrow> fsim \<Rightarrow> fsim" where
  "run_loop stim r n i s =
     (if i < n then run_loop stim r n (i + 1) (apply_writes (stim i) (step_cycle (i + r) s))
      else s)"
  by pat_completeness auto
termination
  by (relation "measure (\<lambda>(stim, r, n, i, s). nat (n - i))") auto

text \<open>
  \<^verbatim>\<open>main\<close>, with the literals of the source as parameters: the stimulus \<open>stim\<close>, the
  number \<open>r\<close> of reset cycles (5 in the source, as the bound of the reset loop and as the
  offset \<^verbatim>\<open>i + 5\<close> of the cycle index in the main loop) and the number \<open>n\<close> of cycles
  of the main loop (200 in the source). \<open>p0\<close> is the state of the ports of the freshly
  constructed model and \<open>e\<close> the outcome of the trace file operations. The counters of the
  source are \<^verbatim>\<open>int\<close>s that stay below 410; they are integers here. The calls that
  pass the command line to the runtime and attach the trace object to the model
  (\<^verbatim>\<open>commandArgs\<close>, \<^verbatim>\<open>traceEverOn\<close>, \<^verbatim>\<open>trace(trace, 99)\<close>) leave no event.
\<close>

definition formal_run ::
  "(int \<Rightarrow> (port \<times> int) list) \<Rightarrow> int \<Rightarrow> int \<Rightarrow> env \<Rightarrow> (port \<Rightarrow> int) \<Rightarrow> (port \<Rightarrow> int) result" where
  "formal_run stim r n e p0 =
     (let s0 = \<lparr>tb = p0, flog = [Open ''formal_testbench.vcd'' (open_ok e)]\<rparr>;
          s1 = init_signals s0;
          s2 = reset_loop r 0 s1;
          s3 = set_port reset_n_i 1 s2;
          s4 = run_loop stim r n 0 s3
      in \<lparr>events = flog s4 @ [Close (close_ok e), DeleteTrace, DeleteModel,
                    Print [Str ''Formal verification completed successfully\<newline>'']],
          exit_code = 0\<rparr>)"

text \<open>\<^verbatim>\<open>main\<close> of \<^verbatim>\<open>formal_main.cpp\<close> as it is written.\<close>

definition formal_main :: "env \<Rightarrow> (port \<Rightarrow> int) \<Rightarrow> (port \<Rightarrow> int) result" where
  "formal_main e p0 = formal_run stimulus 5 200 e p0"

subsection \<open>What the model observes in a run of the formal driver\<close>

text \<open>
  \<open>view\<close> keeps of a log the evaluations, each with the reset and the clock input the
  model sees in it, and the captures, each with its timestamp. \<open>cycle_view rn c\<close> is one
  full clock cycle with index \<open>c\<close> under the reset input \<open>rn\<close>: low phase evaluated and
  captured at \<open>2c\<close>, high phase evaluated and captured at \<open>2c + 1\<close>.
\<close>

datatype obs = Evaluated int int | Captured int

definition view :: "(port \<Rightarrow> int) event list \<Rightarrow> obs list" where
  "view es = concat (map (\<lambda>e. case e of Eval p \<Rightarrow> [Evaluated (p reset_n_i) (p clk_i)]
                                        | Dump t \<Rightarrow> [Captured t] | _ \<Rightarrow> []) es)"

definition cycle_view :: "int \<Rightarrow> int \<Rightarrow> obs list" where
  "cycle_view rn c = [Evaluated rn 0, Captured (c * 2), Evaluated rn 1, Captured (c * 2 + 1)]"

text \<open>
  \<open>seen p\<close>: the audio word the model is offered at an evaluation with ports \<open>p\<close>, none
  when the valid input is low. \<open>computed i\<close>: the audio word that the stimulus of
  iteration \<open>i\<close> leaves on the ports.
\<close>

definition seen :: "(port \<Rightarrow> int) \<Rightarrow> int option" where
  "seen p = (if p audio_valid_i = 0 then None else Some (p audio_data_i))"

definition computed :: "int \<Rightarrow> int option" where
  "computed i = seen (fold (\<lambda>(p, v) f. f(p := v)) (stimulus i) (\<lambda>q. 0))"

section \<open>The basic driver: \<^verbatim>\<open>src/tb/sv_tb/verilator_tb_mlow_codec.cpp\<close>\<close>

text \<open>
  The basic and the comprehensive driver assign no port. Their state is the state of the
  model, opaque but for the two operations the drivers use: \<open>ev\<close>, what one
  \<^verbatim>\<open>eval()\<close> does to it, and \<open>fin\<close>, what \<^verbatim>\<open>Verilated::gotFinish()\<close> answers in it
  (the process-wide finish flag is part of that state).
\<close>

record 'm vsim =
  model :: 'm
  vlog :: "unit event list"

text \<open>\<^verbatim>\<open>top->eval();\<close>\<close>

definition v_eval :: "('m \<Rightarrow> 'm) \<Rightarrow> 'm vsim \<Rightarrow> 'm vsim" where
  "v_eval ev s = s\<lparr>model := ev (model s), vlog := vlog s @ [Eval ()]\<rparr>"

text \<open>\<^verbatim>\<open>tfp->dump(t);\<close>\<close>

definition v_dump :: "int \<Rightarrow> 'm vsim \<Rightarrow> 'm vsim" where
  "v_dump t s = s\<lparr>vlog := vlog s @ [Dump t]\<rparr>"

text \<open>A call of \<^verbatim>\<open>Verilated::gotFinish()\<close>; its answer is \<open>fin (model s)\<close>.\<close>

definition got_finish :: "('m \<Rightarrow> bool) \<Rightarrow> 'm vsim \<Rightarrow> 'm vsim" where
  "got_finish fin s = s\<lparr>vlog := vlog s @ [GotFinish (fin (model s))]\<rparr>"

text \<open>
  The reset loop of lines 23-26, \<^verbatim>\<open>for (int i = 0; i < r; ++i)\<close>, entered at \<open>i\<close>.
  \<open>tfp\<close> tells whether the trace object exists (\<^verbatim>\<open>VM_TRACE\<close> defined) or is
  \<^verbatim>\<open>nullptr\<close>.
\<close>

function basic_reset_loop :: "('m \<Rightarrow> 'm) \<Rightarrow> bool \<Rightarrow> int \<Rightarrow> int \<Rightarrow> 'm vsim \<Rightarrow> 'm vsim" where
  "basic_reset_loop ev tfp r i s =
     (if i < r then
        (let s1 = v_eval ev s;
             s2 = (if tfp then v_dump i s1 else s1)
         in basic_reset_loop ev tfp r (i + 1) s2)
      else s)"
  by pat_completeness auto
termination
  by (relation "measure (\<lambda>(ev, tfp, r, i, s). nat (r - i))") auto

text \<open>
  The main loop of lines 29-33, \<^verbatim>\<open>for (int i = 0; i < n; ++i)\<close>, entered at \<open>i\<close>, with
  its \<^verbatim>\<open>break\<close>.
\<close>

function basic_run_loop ::
  "('m \<Rightarrow> 'm) \<Rightarrow> ('m \<Rightarrow> bool) \<Rightarrow> bool \<Rightarrow> int \<Rightarrow> int \<Rightarrow> int \<Rightarrow> 'm vsim \<Rightarrow> 'm vsim" where
  "basic_run_loop ev fin tfp r n i s =
     (if i < n then
        (let s1 = v_eval ev s;
             s2 = (if tfp then v_dump (r + i) s1 else s1);
             s3 = got_finish fin s2
         in if fin (model s2) then s3 else basic_run_loop ev fin tfp r n (i + 1) s3)
      else s)"
  by pat_completeness auto
termination
  by (relation "measure (\<lambda>(ev, fin, tfp, r, n, i, s). nat (n - i))") auto

text \<open>
  \<^verbatim>\<open>main\<close>, with the two loop bounds as parameters (10 and 10000 in the source; the
  offset of the timestamps of the main loop is the first of them).
\<close>

definition basic_run ::
  "('m \<Rightarrow> 'm) \<Rightarrow> ('m \<Rightarrow> bool) \<Rightarrow> bool \<Rightarrow> int \<Rightarrow> int \<Rightarrow> env \<Rightarrow> 'm \<Rightarrow> unit result" where
  "basic_run ev fin tfp r n e m0 =
     (let s0 = \<lparr>model = m0,
                vlog = (if tfp then [Open ''tb_mlow_codec_verilator.vcd'' (open_ok e)] else [])\<rparr>;
          s1 = basic_reset_loop ev tfp r 0 s0;
          s2 = basic_run_loop ev fin tfp r n 0 s1
      in \<lparr>events = vlog s2 @ (if tfp then [Close (close_ok e), DeleteTrace] else [])
                    @ [Final, DeleteModel],
          exit_code = 0\<rparr>)"

text \<open>\<^verbatim>\<open>main\<close> of the basic driver as it is written.\<close>

definition basic_main :: "('m \<Rightarrow> 'm) \<Rightarrow> ('m \<Rightarrow> bool) \<Rightarrow> bool \<Rightarrow> env \<Rightarrow> 'm \<Rightarrow> unit result" where
  "basic_main ev fin tfp e m0 = basic_run ev fin tfp 10 10000 e m0"

section \<open>The comprehensive driver:
  \<^verbatim>\<open>src/tb/sv_tb/verilator_tb_mlow_codec_comprehensive.cpp\<close>\<close>

text \<open>
  Lines 31-37: the name of the trace file is what follows \<^verbatim>\<open>+vcd_file=\<close> in the first
  argument that starts so (\<^verbatim>\<open>strncmp\<close> over 10 characters), the default name otherwise.
  \<open>vcd_args\<close> scans \<^verbatim>\<open>argv[1]\<close>, \<^verbatim>\<open>argv[2]\<close>, ...
\<close>

fun vcd_args :: "string list \<Rightarrow> string" where
  "vcd_args [] = ''tb_mlow_codec_comprehensive.vcd''"
| "vcd_args (a # as) = (if take 10 a = ''+vcd_file='' then drop 10 a else vcd_args as)"

definition vcd_filename :: "string list \<Rightarrow> string" where
  "vcd_filename argv = vcd_args (tl argv)"

text \<open>
  The loop of lines 42-46, \<^verbatim>\<open>while (!Verilated::gotFinish() && cycle < b)\<close>: the finish
  flag is asked at every test of the condition, ahead of the bound. The function returns
  the state and the counter \<^verbatim>\<open>cycle\<close> at the exit of the loop.
\<close>

function comp_loop ::
  "('m \<Rightarrow> 'm) \<Rightarrow> ('m \<Rightarrow> bool) \<Rightarrow> int \<Rightarrow> int \<Rightarrow> 'm vsim \<Rightarrow> 'm vsim \<times> int" where
  "comp_loop ev fin b cycle s =
     (if \<not> fin (model s) \<and> cycle < b
      then comp_loop ev fin b (cycle + 1) (v_dump cycle (v_eval ev (got_finish fin s)))
      else (got_finish fin s, cycle))"
  by pat_completeness auto
termination
  by (relation "measure (\<lambda>(ev, fin, b, cycle, s). nat (b - cycle))") auto

text \<open>
  \<^verbatim>\<open>main\<close>, with the bound of the loop as the parameter \<open>b\<close> (50000 in the source).
\<close>

definition comprehensive_run ::
  "('m \<Rightarrow> 'm) \<Rightarrow> ('m \<Rightarrow> bool) \<Rightarrow> int \<Rightarrow> string list \<Rightarrow> env \<Rightarrow> 'm \<Rightarrow> unit result" where
  "comprehensive_run ev fin b argv e m0 =
     (let s0 = \<lparr>model = m0, vlog = [Open (vcd_filename argv) (open_ok e)]\<rparr>;
          (s1, cycle) = comp_loop ev fin b 0 s0
      in \<lparr>events = vlog s1 @ [Close (close_ok e), DeleteTrace, DeleteModel,
                    Print [Str ''Comprehensive testbench simulation completed after '',
                           Num cycle, Str '' cycles.'', Endl]],
          exit_code = 0\<rparr>)"

text \<open>\<^verbatim>\<open>main\<close> of the comprehensive driver as it is written.\<close>

definition comprehensive_main ::
  "('m \<Rightarrow> 'm) \<Rightarrow> ('m \<Rightarrow> bool) \<Rightarrow> string list \<Rightarrow> env \<Rightarrow> 'm \<Rightarrow> unit result" where
  "comprehensive_main ev fin argv e m0 = comprehensive_run ev fin 50000 argv e m0"

section \<open>Concrete inputs\<close>

text \<open>
  Inputs at which the theorems below are instantiated: a model whose ports all read 0
  after construction, a trace file that opens and closes, one that cannot be opened, and
  a model that counts its evaluations and raises the finish flag in the evaluation
  number \<open>k + 1\<close> (the evaluation of cycle \<open>k\<close>, counting from 0).
\<close>

definition zero_ports :: "port \<Rightarrow> int" where
  "zero_ports q = 0"

definition sink_ok :: env where
  "sink_ok = \<lparr>open_ok = True, close_ok = True\<rparr>"

definition sink_unopened :: env where
  "sink_unopened = \<lparr>open_ok = False, close_ok = True\<rparr>"

definition finish_in_cycle :: "nat \<Rightarrow> nat \<Rightarrow> bool" where
  "finish_in_cycle k m = (k < m)"

section \<open>Lemmas\<close>

lemma dumps_append [simp]: "dumps (xs @ ys) = dumps xs @ dumps ys"
  by (simp add: dumps_def)

lemma evals_append [simp]: "evals (xs @ ys) = evals xs @ evals ys"
  by (simp add: evals_def)

lemma flog_step_cycle:
  "flog (step_cycle c s) = flog s @
     [Write clk_i 0, Eval ((tb s)(clk_i := 0)), Dump (c * 2),
      Write clk_i 1, Eval ((tb s)(clk_i := 1)), Dump (c * 2 + 1)]"
  by (simp add: step_cycle_def set_port_def eval_tb_def dump_def)

lemma tb_step_cycle: "tb (step_cycle c s) = (tb s)(clk_i := 1)"
  by (simp add: step_cycle_def set_port_def eval_tb_def dump_def)

lemma writes_to_append [simp]: "writes_to q (xs @ ys) = writes_to q xs @ writes_to q ys"
  by (simp add: writes_to_def)

lemma reported_append [simp]: "reported (xs @ ys) = reported xs @ reported ys"
  by (simp add: reported_def)

lemma upto_two: "(i::int) < r \<Longrightarrow> [i * 2..r * 2 - 1] = (i * 2) # (i * 2 + 1) # [(i + 1) * 2..r * 2 - 1]"
  by (simp add: upto_rec1 algebra_simps)

lemma flog_apply_writes:
  "flog (apply_writes ws s) = flog s @ map (\<lambda>(p, v). Write p v) ws"
  by (induction ws arbitrary: s) (auto simp: set_port_def)

lemma dumps_writes [simp]: "dumps (map (\<lambda>(p, v). Write p v) ws) = []"
  by (induction ws) (auto simp: dumps_def)

lemma evals_writes [simp]: "evals (map (\<lambda>(p, v). Write p v) ws) = []"
  by (induction ws) (auto simp: evals_def)

lemma tb_apply_writes_other:
  "q \<notin> fst ` set ws \<Longrightarrow> tb (apply_writes ws s) q = tb s q"
  by (induction ws arbitrary: s) (auto simp: set_port_def)

declare reset_loop.simps [simp del] run_loop.simps [simp del]

lemma dumps_simps [simp]:
  "dumps [] = []"
  "dumps (Dump t # es) = t # dumps es"
  "dumps (Eval p # es) = dumps es"
  "dumps (Write q v # es) = dumps es"
  "dumps (Open f ok # es) = dumps es"
  "dumps (GotFinish b # es) = dumps es"
  "dumps (Close ok # es) = dumps es"
  "dumps (DeleteTrace # es) = dumps es"
  "dumps (Final # es) = dumps es"
  "dumps (DeleteModel # es) = dumps es"
  "dumps (Print os # es) = dumps es"
  by (simp_all add: dumps_def)

lemma evals_simps [simp]:
  "evals [] = []"
  "evals (Eval p # es) = p # evals es"
  "evals (Dump t # es) = evals es"
  "evals (Write q v # es) = evals es"
  "evals (Open f ok # es) = evals es"
  "evals (GotFinish b # es) = evals es"
  "evals (Close ok # es) = evals es"
  "evals (DeleteTrace # es) = evals es"
  "evals (Final # es) = evals es"
  "evals (DeleteModel # es) = evals es"
  "evals (Print os # es) = evals es"
  by (simp_all add: evals_def)

lemma reset_loop_step:
  "i < r \<Longrightarrow> reset_loop r i s = reset_loop r (i + 1) (step_cycle i s)"
  by (subst reset_loop.simps) simp

lemma reset_loop_stop: "\<not> i < r \<Longrightarrow> reset_loop r i s = s"
  by (subst reset_loop.simps) simp

lemma run_loop_step:
  "i < n \<Longrightarrow> run_loop stim r n i s =
     run_loop stim r n (i + 1) (apply_writes (stim i) (step_cycle (i + r) s))"
  by (subst run_loop.simps) simp

lemma run_loop_stop: "\<not> i < n \<Longrightarrow> run_loop stim r n i s = s"
  by (subst run_loop.simps) simp

lemma dumps_step_cycle:
  "dumps (flog (step_cycle c s)) = dumps (flog s) @ [c * 2, c * 2 + 1]"
  by (simp add: flog_step_cycle)

lemma dumps_reset_loop:
  "dumps (flog (reset_loop r i s)) = dumps (flog s) @ [i * 2..r * 2 - 1]"
proof (induction r i s rule: reset_loop.induct)
  case (1 r i s)
  show ?case
  proof (cases "i < r")
    case True
    show ?thesis
      using "1.IH" [OF True]
      by (simp add: reset_loop_step [OF True] dumps_step_cycle upto_two [OF True])
  next
    case False
    then show ?thesis by (simp add: reset_loop_stop)
  qed
qed

lemma dumps_run_loop:
  "dumps (flog (run_loop stim r n i s)) = dumps (flog s) @ [(i + r) * 2..(n + r) * 2 - 1]"
proof (induction stim r n i s rule: run_loop.induct)
  case (1 stim r n i s)
  show ?case
  proof (cases "i < n")
    case True
    then have lt: "i + r < n + r" by simp
    have eq: "i + 1 + r = i + r + 1" by simp
    show ?thesis
      using "1.IH" [OF True]
      by (simp only: run_loop_step [OF True] flog_apply_writes dumps_append dumps_writes
            dumps_step_cycle upto_two [OF lt] eq append_Nil2 append_assoc append.simps)
  next
    case False
    then show ?thesis by (simp add: run_loop_stop)
  qed
qed

lemma view_append [simp]: "view (xs @ ys) = view xs @ view ys"
  by (simp add: view_def)

lemma view_writes [simp]: "view (map (\<lambda>(p, v). Write p v) ws) = []"
  by (induction ws) (auto simp: view_def)

lemma view_step_cycle:
  "view (flog (step_cycle c s)) = view (flog s) @ cycle_view (tb s reset_n_i) c"
  by (simp add: flog_step_cycle view_def cycle_view_def)

lemma upto_snoc_head: "(i::int) < r \<Longrightarrow> [i..r - 1] = i # [i + 1..r - 1]"
  by (simp add: upto_rec1)

lemma view_reset_loop:
  "view (flog (reset_loop r i s)) =
     view (flog s) @ concat (map (cycle_view (tb s reset_n_i)) [i..r - 1])"
proof (induction r i s rule: reset_loop.induct)
  case (1 r i s)
  show ?case
  proof (cases "i < r")
    case True
    show ?thesis
      using "1.IH" [OF True]
      by (simp add: reset_loop_step [OF True] view_step_cycle tb_step_cycle
            upto_snoc_head [OF True])
  next
    case False
    then show ?thesis by (simp add: reset_loop_stop)
  qed
qed

lemma view_run_loop:
  "\<forall>j. reset_n_i \<notin> fst ` set (stim j) \<Longrightarrow>
   view (flog (run_loop stim r n i s)) =
     view (flog s) @ concat (map (cycle_view (tb s reset_n_i)) [i + r..n + r - 1])"
proof (induction stim r n i s rule: run_loop.induct)
  case (1 stim r n i s)
  show ?case
  proof (cases "i < n")
    case True
    then have lt: "i + r < n + r" by simp
    have eq: "i + 1 + r = i + r + 1" by simp
    have keep: "tb (apply_writes (stim i) (step_cycle (i + r) s)) reset_n_i = tb s reset_n_i"
      using "1.prems" by (simp add: tb_apply_writes_other tb_step_cycle)
    show ?thesis
      using "1.IH" [OF True "1.prems"]
      by (simp add: run_loop_step [OF True] flog_apply_writes view_step_cycle keep eq
            upto_snoc_head [OF lt])
  next
    case False
    then show ?thesis by (simp add: run_loop_stop)
  qed
qed

lemma stimulus_keeps_reset: "\<forall>j. reset_n_i \<notin> fst ` set (stimulus j)"
  by (simp add: stimulus_def)

lemma flog_init_signals:
  "flog (init_signals s) = flog s @
     [Write reset_n_i 0, Write audio_data_i 0, Write audio_valid_i 0, Write audio_ready_i 1,
      Write frame_bus_ready_i 1, Write frame_ready_i 1, Write packet_ready_i 1,
      Write encode_mode_i 1, Write bitrate_sel_i 5, Write bandwidth_sel_i 1]"
  by (simp add: init_signals_def set_port_def)

lemma tb_init_signals:
  "tb (init_signals s) =
     (tb s)(reset_n_i := 0, audio_data_i := 0, audio_valid_i := 0, audio_ready_i := 1,
       frame_bus_ready_i := 1, frame_ready_i := 1, packet_ready_i := 1,
       encode_mode_i := 1, bitrate_sel_i := 5, bandwidth_sel_i := 1)"
  by (simp add: init_signals_def set_port_def)

lemma tb_reset_loop_other: "q \<noteq> clk_i \<Longrightarrow> tb (reset_loop r i s) q = tb s q"
proof (induction r i s rule: reset_loop.induct)
  case (1 r i s)
  show ?case
  proof (cases "i < r")
    case True
    show ?thesis
      using "1.IH" [OF True "1.prems"] "1.prems"
      by (simp add: reset_loop_step [OF True] tb_step_cycle)
  next
    case False
    then show ?thesis by (simp add: reset_loop_stop)
  qed
qed

lemma view_simps [simp]:
  "view [] = []"
  "view (Eval p # es) = Evaluated (p reset_n_i) (p clk_i) # view es"
  "view (Dump t # es) = Captured t # view es"
  "view (Write q v # es) = view es"
  "view (Open f ok # es) = view es"
  "view (GotFinish b # es) = view es"
  "view (Close ok # es) = view es"
  "view (DeleteTrace # es) = view es"
  "view (Final # es) = view es"
  "view (DeleteModel # es) = view es"
  "view (Print os # es) = view es"
  by (simp_all add: view_def)

lemma view_formal_run:
  assumes "\<forall>j. reset_n_i \<notin> fst ` set (stim j)"
  shows "view (events (formal_run stim r n e p0)) =
     concat (map (cycle_view 0) [0..r - 1]) @ concat (map (cycle_view 1) [r..n + r - 1])"
proof -
  define s1 where "s1 = init_signals \<lparr>tb = p0, flog = [Open ''formal_testbench.vcd'' (open_ok e)]\<rparr>"
  define s2 where "s2 = reset_loop r 0 s1"
  define s3 where "s3 = set_port reset_n_i 1 s2"
  have v1: "view (flog s1) = []" and t1: "tb s1 reset_n_i = 0"
    by (simp_all add: s1_def flog_init_signals tb_init_signals)
  have v2: "view (flog s2) = concat (map (cycle_view 0) [0..r - 1])"
    by (simp add: s2_def view_reset_loop v1 t1)
  have v3: "view (flog s3) = view (flog s2)" and t3: "tb s3 reset_n_i = 1"
    by (simp_all add: s3_def set_port_def)
  have "view (flog (run_loop stim r n 0 s3)) =
          view (flog s3) @ concat (map (cycle_view 1) [r..n + r - 1])"
    using view_run_loop [OF assms, of r n 0 s3] by (simp add: t3)
  then show ?thesis
    by (simp add: formal_run_def Let_def s1_def [symmetric] s2_def [symmetric]
          s3_def [symmetric] v3 v2)
qed

lemma writes_to_simps [simp]:
  "writes_to q [] = []"
  "writes_to q (Write p v # es) = (if p = q then v # writes_to q es else writes_to q es)"
  "writes_to q (Eval x # es) = writes_to q es"
  "writes_to q (Dump t # es) = writes_to q es"
  "writes_to q (Open f ok # es) = writes_to q es"
  "writes_to q (GotFinish b # es) = writes_to q es"
  "writes_to q (Close ok # es) = writes_to q es"
  "writes_to q (DeleteTrace # es) = writes_to q es"
  "writes_to q (Final # es) = writes_to q es"
  "writes_to q (DeleteModel # es) = writes_to q es"
  "writes_to q (Print os # es) = writes_to q es"
  by (simp_all add: writes_to_def)

lemma writes_to_writes:
  "q \<notin> fst ` set ws \<Longrightarrow> writes_to q (map (\<lambda>(p, v). Write p v) ws) = []"
  by (induction ws) auto

lemma writes_to_reset_loop:
  "q \<noteq> clk_i \<Longrightarrow> writes_to q (flog (reset_loop r i s)) = writes_to q (flog s)"
proof (induction r i s rule: reset_loop.induct)
  case (1 r i s)
  show ?case
  proof (cases "i < r")
    case True
    show ?thesis
      using "1.IH" [OF True "1.prems"] "1.prems"
      by (simp add: reset_loop_step [OF True] flog_step_cycle)
  next
    case False
    then show ?thesis by (simp add: reset_loop_stop)
  qed
qed

lemma writes_to_run_loop:
  "q \<noteq> clk_i \<Longrightarrow> \<forall>j. q \<notin> fst ` set (stim j) \<Longrightarrow>
   writes_to q (flog (run_loop stim r n i s)) = writes_to q (flog s)"
proof (induction stim r n i s rule: run_loop.induct)
  case (1 stim r n i s)
  show ?case
  proof (cases "i < n")
    case True
    show ?thesis
      using "1.IH" [OF True "1.prems"] "1.prems"
      by (simp add: run_loop_step [OF True] flog_step_cycle flog_apply_writes writes_to_writes)
  next
    case False
    then show ?thesis by (simp add: run_loop_stop)
  qed
qed

lemma writes_reset_formal_run:
  assumes "\<forall>j. reset_n_i \<notin> fst ` set (stim j)"
  shows "writes_to reset_n_i (events (formal_run stim r n e p0)) = [0, 1]"
proof -
  define s1 where "s1 = init_signals \<lparr>tb = p0, flog = [Open ''formal_testbench.vcd'' (open_ok e)]\<rparr>"
  define s2 where "s2 = reset_loop r 0 s1"
  define s3 where "s3 = set_port reset_n_i 1 s2"
  have w1: "writes_to reset_n_i (flog s1) = [0]"
    by (simp add: s1_def flog_init_signals)
  have w2: "writes_to reset_n_i (flog s2) = [0]"
    by (simp add: s2_def writes_to_reset_loop w1)
  have w3: "writes_to reset_n_i (flog s3) = [0, 1]"
    by (simp add: s3_def set_port_def w2)
  have "writes_to reset_n_i (flog (run_loop stim r n 0 s3)) = [0, 1]"
    using writes_to_run_loop [of reset_n_i stim r n 0 s3] assms by (simp add: w3)
  then show ?thesis
    by (simp add: formal_run_def Let_def s1_def [symmetric] s2_def [symmetric]
          s3_def [symmetric])
qed

lemma dumps_formal_run:
  assumes "0 \<le> r" "0 \<le> n"
  shows "dumps (events (formal_run stim r n e p0)) = [0..2 * (r + n) - 1]"
proof -
  define s1 where "s1 = init_signals \<lparr>tb = p0, flog = [Open ''formal_testbench.vcd'' (open_ok e)]\<rparr>"
  define s2 where "s2 = reset_loop r 0 s1"
  define s3 where "s3 = set_port reset_n_i 1 s2"
  have d1: "dumps (flog s1) = []"
    by (simp add: s1_def flog_init_signals)
  have d2: "dumps (flog s2) = [0..r * 2 - 1]"
    using dumps_reset_loop [of r 0 s1] by (simp add: s2_def d1)
  have d3: "dumps (flog s3) = [0..r * 2 - 1]"
    by (simp add: s3_def set_port_def d2)
  have d4: "dumps (flog (run_loop stim r n 0 s3)) = [0..r * 2 - 1] @ [r * 2..(n + r) * 2 - 1]"
    using dumps_run_loop [of stim r n 0 s3] by (simp add: d3)
  have split: "[0..2 * (r + n) - 1] = [0..r * 2 - 1] @ [r * 2..(n + r) * 2 - 1]"
  proof (cases "n = 0")
    case True
    then show ?thesis by (simp add: mult.commute)
  next
    case False
    with assms have "0 \<le> r * 2" "r * 2 \<le> 2 * (r + n) - 1" by simp_all
    from upto_split1 [OF this] show ?thesis by (simp add: algebra_simps)
  qed
  have "dumps (events (formal_run stim r n e p0)) = dumps (flog (run_loop stim r n 0 s3))"
    by (simp add: formal_run_def Let_def s1_def [symmetric] s2_def [symmetric]
          s3_def [symmetric])
  also have "\<dots> = [0..2 * (r + n) - 1]"
    by (simp only: d4 split)
  finally show ?thesis .
qed

lemma cycles_joined:
  assumes "0 \<le> r" "0 \<le> n"
  shows "concat (map (cycle_view 0) [0..r - 1]) @ concat (map (cycle_view 1) [r..n + r - 1]) =
         concat (map (\<lambda>c. cycle_view (if c < r then 0 else 1) c) [0..r + n - 1])"
proof -
  have split: "[0..r + n - 1] = [0..r - 1] @ [r..n + r - 1]"
  proof (cases "n = 0")
    case True
    then show ?thesis by simp
  next
    case False
    with assms have "0 \<le> r" "r \<le> r + n - 1" by simp_all
    from upto_split1 [OF this] show ?thesis by (simp add: algebra_simps)
  qed
  have a: "map (\<lambda>c. cycle_view (if c < r then 0 else 1) c) [0..r - 1] = map (cycle_view 0) [0..r - 1]"
    by (rule map_cong) auto
  have b: "map (\<lambda>c. cycle_view (if c < r then 0 else 1) c) [r..n + r - 1] = map (cycle_view 1) [r..n + r - 1]"
    by (rule map_cong) auto
  show ?thesis by (simp add: split a b)
qed

lemma seen_clk [simp]: "seen (p(clk_i := v)) = seen p"
  by (simp add: seen_def)

lemma seen_clk_pointwise [simp]: "seen (\<lambda>a. if a = clk_i then v else p a) = seen p"
  by (simp add: seen_def)

lemma seen_stimulus: "seen (tb (apply_writes (stimulus i) s)) = computed i"
  by (simp add: stimulus_def computed_def seen_def set_port_def)

lemma computed_eq:
  "computed i = (if 10 \<le> i \<and> i < 26 then Some (0x1234 + (i - 10))
                 else if 50 \<le> i \<and> i < 66 then Some (0x5678 + (i - 50)) else None)"
  by (simp add: stimulus_def computed_def seen_def)

lemma seen_step_cycle:
  "map seen (evals (flog (step_cycle c s))) = map seen (evals (flog s)) @ [seen (tb s), seen (tb s)]"
  by (simp add: flog_step_cycle)

lemma seen_reset_loop:
  "map seen (evals (flog (reset_loop r i s))) =
     map seen (evals (flog s)) @ concat (map (\<lambda>c. [seen (tb s), seen (tb s)]) [i..r - 1])"
proof (induction r i s rule: reset_loop.induct)
  case (1 r i s)
  show ?case
  proof (cases "i < r")
    case True
    show ?thesis
      using "1.IH" [OF True]
      by (simp add: reset_loop_step [OF True] seen_step_cycle tb_step_cycle
            upto_snoc_head [OF True])
  next
    case False
    then show ?thesis by (simp add: reset_loop_stop)
  qed
qed

lemma seen_run_loop:
  "map seen (evals (flog (run_loop stimulus r n i s))) =
     map seen (evals (flog s)) @
     concat (map (\<lambda>j. [if j = i then seen (tb s) else computed (j - 1),
                        if j = i then seen (tb s) else computed (j - 1)]) [i..n - 1])"
proof (induction stimulus r n i s rule: run_loop.induct)
  case (1 r n i s)
  show ?case
  proof (cases "i < n")
    case True
    define s' where "s' = apply_writes (stimulus i) (step_cycle (i + r) s)"
    have ih: "map seen (evals (flog (run_loop stimulus r n (i + 1) s'))) =
        map seen (evals (flog s')) @
        concat (map (\<lambda>j. [if j = i + 1 then seen (tb s') else computed (j - 1),
                           if j = i + 1 then seen (tb s') else computed (j - 1)]) [i + 1..n - 1])"
      using "1.hyps" [OF True] unfolding s'_def .
    have tail: "map (\<lambda>j. [if j = i + 1 then seen (tb s') else computed (j - 1),
                           if j = i + 1 then seen (tb s') else computed (j - 1)]) [i + 1..n - 1]
              = map (\<lambda>j. [if j = i then seen (tb s) else computed (j - 1),
                           if j = i then seen (tb s) else computed (j - 1)]) [i + 1..n - 1]"
      by (rule map_cong) (auto simp: s'_def seen_stimulus)
    have pre: "map seen (evals (flog s')) = map seen (evals (flog s)) @ [seen (tb s), seen (tb s)]"
      by (simp add: s'_def flog_apply_writes seen_step_cycle)
    show ?thesis
      by (simp add: run_loop_step [OF True] s'_def [symmetric] ih tail pre
            upto_snoc_head [OF True])
  next
    case False
    then show ?thesis by (simp add: run_loop_stop)
  qed
qed

lemma seen_formal_run:
  "map seen (evals (events (formal_run stimulus r n e p0))) =
     concat (map (\<lambda>c. [None, None]) [0..r - 1]) @
     concat (map (\<lambda>j. [if j = 0 then None else computed (j - 1),
                        if j = 0 then None else computed (j - 1)]) [0..n - 1])"
proof -
  define s1 where "s1 = init_signals \<lparr>tb = p0, flog = [Open ''formal_testbench.vcd'' (open_ok e)]\<rparr>"
  define s2 where "s2 = reset_loop r 0 s1"
  define s3 where "s3 = set_port reset_n_i 1 s2"
  have e1: "evals (flog s1) = []" and v1: "tb s1 audio_valid_i = 0"
    by (simp_all add: s1_def flog_init_signals tb_init_signals)
  have e2: "map seen (evals (flog s2)) = concat (map (\<lambda>c. [None, None]) [0..r - 1])"
    by (simp add: s2_def seen_reset_loop e1 v1 seen_def)
  have v2: "tb s2 audio_valid_i = 0"
    by (simp add: s2_def tb_reset_loop_other v1)
  have e3: "evals (flog s3) = evals (flog s2)" and t3: "seen (tb s3) = None"
    by (simp_all add: s3_def set_port_def seen_def v2)
  have "map seen (evals (flog (run_loop stimulus r n 0 s3))) =
          map seen (evals (flog s3)) @
          concat (map (\<lambda>j. [if j = 0 then None else computed (j - 1),
                             if j = 0 then None else computed (j - 1)]) [0..n - 1])"
    using seen_run_loop [of r n 0 s3] unfolding t3 .
  then show ?thesis
    by (simp add: formal_run_def Let_def s1_def [symmetric] s2_def [symmetric]
          s3_def [symmetric] e3 e2)
qed

lemma length_evals_run_loop:
  "length (evals (flog (run_loop stim r n i s))) = length (evals (flog s)) + 2 * nat (n - i)"
proof (induction stim r n i s rule: run_loop.induct)
  case (1 stim r n i s)
  show ?case
  proof (cases "i < n")
    case True
    then have "nat (n - i) = Suc (nat (n - (i + 1)))" by simp
    then show ?thesis
      using "1.IH" [OF True]
      by (simp add: run_loop_step [OF True] flog_apply_writes flog_step_cycle)
  next
    case False
    then show ?thesis by (simp add: run_loop_stop)
  qed
qed

lemma length_evals_reset_loop:
  "length (evals (flog (reset_loop r i s))) = length (evals (flog s)) + 2 * nat (r - i)"
proof (induction r i s rule: reset_loop.induct)
  case (1 r i s)
  show ?case
  proof (cases "i < r")
    case True
    then have "nat (r - i) = Suc (nat (r - (i + 1)))" by simp
    then show ?thesis
      using "1.IH" [OF True]
      by (simp add: reset_loop_step [OF True] flog_step_cycle)
  next
    case False
    then show ?thesis by (simp add: reset_loop_stop)
  qed
qed

lemma length_evals_formal_run:
  "length (evals (events (formal_run stim r n e p0))) = 2 * nat r + 2 * nat n"
  by (simp add: formal_run_def Let_def length_evals_run_loop length_evals_reset_loop
        set_port_def flog_init_signals)


declare basic_reset_loop.simps [simp del] basic_run_loop.simps [simp del]
  comp_loop.simps [simp del]

lemma printed_append [simp]: "printed (xs @ ys) = printed xs @ printed ys"
  by (simp add: printed_def)

lemma steps_append [simp]: "steps (xs @ ys) = steps xs @ steps ys"
  by (simp add: steps_def)

lemma comp_loop_step:
  "\<not> fin (model s) \<Longrightarrow> cycle < b \<Longrightarrow>
   comp_loop ev fin b cycle s =
     comp_loop ev fin b (cycle + 1) (v_dump cycle (v_eval ev (got_finish fin s)))"
  by (subst comp_loop.simps) simp

lemma comp_loop_stop:
  "fin (model s) \<or> \<not> cycle < b \<Longrightarrow> comp_loop ev fin b cycle s = (got_finish fin s, cycle)"
  by (subst comp_loop.simps) auto

lemma comp_loop_step_rec:
  "\<not> fin m \<Longrightarrow> c < b \<Longrightarrow>
   comp_loop ev fin b c \<lparr>model = m, vlog = l\<rparr> =
     comp_loop ev fin b (c + 1) \<lparr>model = ev m, vlog = l @ [GotFinish False, Eval (), Dump c]\<rparr>"
  by (subst comp_loop.simps) (simp add: v_dump_def v_eval_def got_finish_def)

lemma comp_loop_stop_rec:
  "fin m \<Longrightarrow>
   comp_loop ev fin b c \<lparr>model = m, vlog = l\<rparr> = (\<lparr>model = m, vlog = l @ [GotFinish True]\<rparr>, c)"
  by (subst comp_loop.simps) (simp add: got_finish_def)

lemma comp_loop_finishes:
  "\<forall>j\<le>k. \<not> fin ((ev ^^ j) m) \<Longrightarrow> fin ((ev ^^ Suc k) m) \<Longrightarrow> c + int k < b \<Longrightarrow>
   comp_loop ev fin b c \<lparr>model = m, vlog = l\<rparr> =
     (\<lparr>model = (ev ^^ Suc k) m,
       vlog = l @ [GotFinish False] @
              concat (map (\<lambda>j. [Eval (), Dump j, GotFinish (j = c + int k)]) [c..c + int k])\<rparr>,
      c + int k + 1)"
proof (induction k arbitrary: m c l)
  case 0
  then have nf: "\<not> fin m" and f1: "fin (ev m)" and lt: "c < b" by simp_all
  show ?case
    using nf f1 lt
    by (simp add: comp_loop_step_rec comp_loop_stop_rec)
next
  case (Suc k)
  from Suc.prems(1) have nf: "\<not> fin m" by (metis funpow_0 le0)
  from Suc.prems(3) have lt: "c < b" by simp
  have p1: "\<forall>j\<le>k. \<not> fin ((ev ^^ j) (ev m))"
  proof (intro allI impI)
    fix j assume "j \<le> k"
    then have "\<not> fin ((ev ^^ Suc j) m)" using Suc.prems(1) by (meson Suc_le_mono)
    then show "\<not> fin ((ev ^^ j) (ev m))" by (simp add: funpow_swap1)
  qed
  have p2: "fin ((ev ^^ Suc k) (ev m))"
    using Suc.prems(2) by (simp add: funpow_swap1)
  have p3: "c + 1 + int k < b" using Suc.prems(3) by simp
  have up: "[c..c + int (Suc k)] = c # [c + 1..c + 1 + int k]"
    by (simp add: upto_rec1 add.assoc)
  have same: "map (\<lambda>j. [Eval (), Dump j, GotFinish (j = c + int (Suc k))]) [c + 1..c + 1 + int k]
            = map (\<lambda>j. [Eval (), Dump j, GotFinish (j = c + 1 + int k)]) [c + 1..c + 1 + int k]"
    by (rule map_cong) auto
  have fp: "(ev ^^ Suc k) (ev m) = (ev ^^ Suc (Suc k)) m"
    by (simp add: funpow_swap1)
  have step: "comp_loop ev fin b c \<lparr>model = m, vlog = l\<rparr> =
      comp_loop ev fin b (c + 1) \<lparr>model = ev m, vlog = l @ [GotFinish False, Eval (), Dump c]\<rparr>"
    using nf lt by (rule comp_loop_step_rec)
  have ih: "comp_loop ev fin b (c + 1) \<lparr>model = ev m, vlog = l @ [GotFinish False, Eval (), Dump c]\<rparr> =
      (\<lparr>model = (ev ^^ Suc k) (ev m),
        vlog = (l @ [GotFinish False, Eval (), Dump c]) @ [GotFinish False] @
               concat (map (\<lambda>j. [Eval (), Dump j, GotFinish (j = c + 1 + int k)])
                        [c + 1..c + 1 + int k])\<rparr>,
       c + 1 + int k + 1)"
    by (rule Suc.IH [OF p1 p2 p3])
  have logs: "(l @ [GotFinish False, Eval (), Dump c]) @ [GotFinish False] @
               concat (map (\<lambda>j. [Eval (), Dump j, GotFinish (j = c + 1 + int k)])
                        [c + 1..c + 1 + int k]) =
              l @ [GotFinish False] @
               concat (map (\<lambda>j. [Eval (), Dump j, GotFinish (j = c + int (Suc k))])
                        [c..c + int (Suc k)])"
    by (simp only: up list.map concat.simps same) simp
  have cnt: "c + 1 + int k + 1 = c + int (Suc k) + 1" by simp
  show ?case by (simp only: step ih logs fp cnt)
qed

lemma comp_loop_mono: "c \<le> snd (comp_loop ev fin b c s)"
proof (induction ev fin b c s rule: comp_loop.induct)
  case (1 ev fin b cycle s)
  show ?case
  proof (cases "\<not> fin (model s) \<and> cycle < b")
    case True
    then have nf: "\<not> fin (model s)" and lt: "cycle < b" by simp_all
    show ?thesis
      using "1.IH" [OF True] nf lt
      by (simp add: comp_loop_step [where fin = fin and s = s and cycle = cycle and b = b])
  next
    case False
    then show ?thesis by (simp add: comp_loop_stop)
  qed
qed

lemma steps_simps [simp]:
  "steps [] = []"
  "steps (Eval p # es) = Eval p # steps es"
  "steps (Dump t # es) = Dump t # steps es"
  "steps (Write q v # es) = steps es"
  "steps (Open f ok # es) = steps es"
  "steps (GotFinish b # es) = steps es"
  "steps (Close ok # es) = steps es"
  "steps (DeleteTrace # es) = steps es"
  "steps (Final # es) = steps es"
  "steps (DeleteModel # es) = steps es"
  "steps (Print os # es) = steps es"
  by (simp_all add: steps_def)

lemma printed_simps [simp]:
  "printed [] = []"
  "printed (Print os # es) = os # printed es"
  "printed (Eval p # es) = printed es"
  "printed (Dump t # es) = printed es"
  "printed (Write q v # es) = printed es"
  "printed (Open f ok # es) = printed es"
  "printed (GotFinish b # es) = printed es"
  "printed (Close ok # es) = printed es"
  "printed (DeleteTrace # es) = printed es"
  "printed (Final # es) = printed es"
  "printed (DeleteModel # es) = printed es"
  by (simp_all add: printed_def)

lemma vlog_comp_body:
  "vlog (v_dump c (v_eval ev (got_finish fin s))) =
     vlog s @ [GotFinish (fin (model s)), Eval (), Dump c]"
  by (simp add: v_dump_def v_eval_def got_finish_def)

lemma comp_loop_counts:
  "int (length (evals (vlog (fst (comp_loop ev fin b c s))))) =
     int (length (evals (vlog s))) + (snd (comp_loop ev fin b c s) - c)
   \<and> int (length (dumps (vlog (fst (comp_loop ev fin b c s))))) =
     int (length (dumps (vlog s))) + (snd (comp_loop ev fin b c s) - c)
   \<and> steps (vlog (fst (comp_loop ev fin b c s))) =
     steps (vlog s) @ concat (map (\<lambda>j. [Eval (), Dump j]) [c..snd (comp_loop ev fin b c s) - 1])
   \<and> printed (vlog (fst (comp_loop ev fin b c s))) = printed (vlog s)"
proof (induction ev fin b c s rule: comp_loop.induct)
  case (1 ev fin b cycle s)
  show ?case
  proof (cases "\<not> fin (model s) \<and> cycle < b")
    case True
    then have nf: "\<not> fin (model s)" and lt: "cycle < b" by simp_all
    define s' where "s' = v_dump cycle (v_eval ev (got_finish fin s))"
    define c' where "c' = snd (comp_loop ev fin b (cycle + 1) s')"
    have st: "comp_loop ev fin b cycle s = comp_loop ev fin b (cycle + 1) s'"
      unfolding s'_def using nf lt by (rule comp_loop_step)
    have mono: "cycle + 1 \<le> c'"
      unfolding c'_def by (rule comp_loop_mono)
    then have up: "[cycle..c' - 1] = cycle # [cycle + 1..c' - 1]"
      by (simp add: upto_rec1)
    have lg: "vlog s' = vlog s @ [GotFinish (fin (model s)), Eval (), Dump cycle]"
      unfolding s'_def by (rule vlog_comp_body)
    show ?thesis
      using "1.IH" [OF True] 
      by (simp add: st s'_def [symmetric] c'_def [symmetric] lg up)
  next
    case False
    then show ?thesis
      by (simp add: comp_loop_stop got_finish_def)
  qed
qed

lemma basic_reset_loop_step:
  "i < r \<Longrightarrow> basic_reset_loop ev tfp r i s =
     basic_reset_loop ev tfp r (i + 1) (if tfp then v_dump i (v_eval ev s) else v_eval ev s)"
  by (subst basic_reset_loop.simps) (simp add: Let_def)

lemma basic_reset_loop_stop: "\<not> i < r \<Longrightarrow> basic_reset_loop ev tfp r i s = s"
  by (subst basic_reset_loop.simps) simp

lemma basic_run_loop_step:
  "i < n \<Longrightarrow> basic_run_loop ev fin tfp r n i s =
     (if fin (ev (model s))
      then got_finish fin (if tfp then v_dump (r + i) (v_eval ev s) else v_eval ev s)
      else basic_run_loop ev fin tfp r n (i + 1)
             (got_finish fin (if tfp then v_dump (r + i) (v_eval ev s) else v_eval ev s)))"
  by (subst basic_run_loop.simps) (simp add: Let_def v_dump_def v_eval_def)

lemma basic_run_loop_stop: "\<not> i < n \<Longrightarrow> basic_run_loop ev fin tfp r n i s = s"
  by (subst basic_run_loop.simps) simp

lemma vlog_basic_body:
  "vlog (if tfp then v_dump t (v_eval ev s) else v_eval ev s) =
     vlog s @ Eval () # (if tfp then [Dump t] else [])"
  by (simp add: v_dump_def v_eval_def)

lemma vlog_got_finish: "vlog (got_finish fin s) = vlog s @ [GotFinish (fin (model s))]"
  by (simp add: got_finish_def)

lemma basic_reset_loop_events:
  "set (vlog (basic_reset_loop ev tfp r i s)) \<subseteq> set (vlog s) \<union> insert (Eval ()) (range Dump)"
proof (induction ev tfp r i s rule: basic_reset_loop.induct)
  case (1 ev tfp r i s)
  show ?case
  proof (cases "i < r")
    case True
    have "set (vlog (if tfp then v_dump i (v_eval ev s) else v_eval ev s))
            \<subseteq> set (vlog s) \<union> insert (Eval ()) (range Dump)"
      by (auto simp: vlog_basic_body)
    moreover have "set (vlog (basic_reset_loop ev tfp r (i + 1)
                     (if tfp then v_dump i (v_eval ev s) else v_eval ev s)))
            \<subseteq> set (vlog (if tfp then v_dump i (v_eval ev s) else v_eval ev s))
                \<union> insert (Eval ()) (range Dump)"
      using "1.IH" [OF True refl refl] by (simp add: Let_def)
    ultimately show ?thesis
      unfolding basic_reset_loop_step [OF True] by blast
  next
    case False
    then show ?thesis by (auto simp: basic_reset_loop_stop)
  qed
qed

lemma basic_run_loop_events:
  "set (vlog (basic_run_loop ev fin tfp r n i s))
     \<subseteq> set (vlog s) \<union> insert (Eval ()) (range Dump \<union> range GotFinish)"
proof (induction ev fin tfp r n i s rule: basic_run_loop.induct)
  case (1 ev fin tfp r n i s)
  show ?case
  proof (cases "i < n")
    case True
    let ?s3 = "got_finish fin (if tfp then v_dump (r + i) (v_eval ev s) else v_eval ev s)"
    have body: "set (vlog ?s3) \<subseteq> set (vlog s) \<union> insert (Eval ()) (range Dump \<union> range GotFinish)"
      by (auto simp: vlog_basic_body vlog_got_finish)
    show ?thesis
    proof (cases "fin (ev (model s))")
      case True
      with \<open>i < n\<close> body show ?thesis by (simp add: basic_run_loop_step)
    next
      case False
      have "set (vlog (basic_run_loop ev fin tfp r n (i + 1) ?s3))
            \<subseteq> set (vlog ?s3) \<union> insert (Eval ()) (range Dump \<union> range GotFinish)"
        using "1.IH" [OF \<open>i < n\<close> refl refl refl] False
        by (simp add: v_dump_def v_eval_def)
      with body have "set (vlog (basic_run_loop ev fin tfp r n (i + 1) ?s3))
            \<subseteq> set (vlog s) \<union> insert (Eval ()) (range Dump \<union> range GotFinish)"
        by blast
      with \<open>i < n\<close> False show ?thesis by (simp add: basic_run_loop_step)
    qed
  next
    case False
    then show ?thesis by (auto simp: basic_run_loop_stop)
  qed
qed

lemma basic_loops_events:
  "set (vlog (basic_run_loop ev fin tfp r n 0 (basic_reset_loop ev tfp r 0 \<lparr>model = m0, vlog = l\<rparr>)))
     \<subseteq> set l \<union> insert (Eval ()) (range Dump \<union> range GotFinish)"
  using basic_run_loop_events [of ev fin tfp r n 0 "basic_reset_loop ev tfp r 0 \<lparr>model = m0, vlog = l\<rparr>"]
    basic_reset_loop_events [of ev tfp r 0 "\<lparr>model = m0, vlog = l\<rparr>"]
  by auto

lemma before_after_prefix:
  assumes "a \<notin> set xs" and "b \<notin> set xs"
  shows "before a b (xs @ ys) = before a b ys"
proof -
  have "takeWhile (\<lambda>e. e \<noteq> b) (xs @ ys) = xs @ takeWhile (\<lambda>e. e \<noteq> b) ys"
    by (rule takeWhile_append2) (use assms(2) in auto)
  then show ?thesis using assms(1) by (simp add: before_def)
qed

lemma events_basic_run_tracing:
  "events (basic_run ev fin True r n e m0) =
     vlog (basic_run_loop ev fin True r n 0 (basic_reset_loop ev True r 0
       \<lparr>model = m0, vlog = [Open ''tb_mlow_codec_verilator.vcd'' (open_ok e)]\<rparr>))
     @ [Close (close_ok e), DeleteTrace, Final, DeleteModel]"
  by (simp add: basic_run_def Let_def)

lemma events_basic_run_plain:
  "events (basic_run ev fin False r n e m0) =
     vlog (basic_run_loop ev fin False r n 0 (basic_reset_loop ev False r 0
       \<lparr>model = m0, vlog = []\<rparr>))
     @ [Final, DeleteModel]"
  by (simp add: basic_run_def Let_def)

lemma basic_close_then_final:
  "before (Close (close_ok e)) Final (events (basic_run ev fin True r n e m0))
   \<and> \<not> before Final (Close (close_ok e)) (events (basic_run ev fin True r n e m0))
   \<and> before Final DeleteModel (events (basic_run ev fin True r n e m0))"
proof -
  let ?pre = "vlog (basic_run_loop ev fin True r n 0 (basic_reset_loop ev True r 0
       \<lparr>model = m0, vlog = [Open ''tb_mlow_codec_verilator.vcd'' (open_ok e)]\<rparr>))"
  have sub: "set ?pre \<subseteq> set [Open ''tb_mlow_codec_verilator.vcd'' (open_ok e)]
                \<union> insert (Eval ()) (range Dump \<union> range GotFinish)"
    by (rule basic_loops_events)
  have n1: "Final \<notin> set ?pre" and n2: "Close (close_ok e) \<notin> set ?pre"
    and n3: "DeleteModel \<notin> set ?pre"
    using sub by auto
  show ?thesis
    unfolding events_basic_run_tracing
    by (simp add: before_after_prefix n1 n2 n3) (simp add: before_def)
qed

lemma formal_step_events:
  "set (flog (step_cycle c s)) \<subseteq> set (flog s) \<union> (range Eval \<union> range Dump \<union> range (\<lambda>(p, v). Write p v))"
  by (auto simp: flog_step_cycle)

lemma formal_writes_events:
  "set (flog (apply_writes ws s)) \<subseteq> set (flog s) \<union> (range Eval \<union> range Dump \<union> range (\<lambda>(p, v). Write p v))"
  by (auto simp: flog_apply_writes)

lemma reset_loop_events:
  "set (flog (reset_loop r i s)) \<subseteq> set (flog s) \<union> (range Eval \<union> range Dump \<union> range (\<lambda>(p, v). Write p v))"
proof (induction r i s rule: reset_loop.induct)
  case (1 r i s)
  show ?case
  proof (cases "i < r")
    case True
    show ?thesis
      using "1.IH" [OF True] formal_step_events [of i s]
      unfolding reset_loop_step [OF True] by blast
  next
    case False
    then show ?thesis by (auto simp: reset_loop_stop)
  qed
qed

lemma run_loop_events:
  "set (flog (run_loop stim r n i s)) \<subseteq> set (flog s) \<union> (range Eval \<union> range Dump \<union> range (\<lambda>(p, v). Write p v))"
proof (induction stim r n i s rule: run_loop.induct)
  case (1 stim r n i s)
  show ?case
  proof (cases "i < n")
    case True
    show ?thesis
      using "1.IH" [OF True] formal_step_events [of "i + r" s]
        formal_writes_events [of "stim i" "step_cycle (i + r) s"]
      unfolding run_loop_step [OF True] by blast
  next
    case False
    then show ?thesis by (auto simp: run_loop_stop)
  qed
qed

lemma events_formal_run:
  "\<exists>pre. events (formal_run stim r n e p0) =
      pre @ [Close (close_ok e), DeleteTrace, DeleteModel,
             Print [Str ''Formal verification completed successfully\<newline>'']]
    \<and> set pre \<subseteq> insert (Open ''formal_testbench.vcd'' (open_ok e))
                   (range Eval \<union> range Dump \<union> range (\<lambda>(p, v). Write p v))"
proof -
  define s1 where "s1 = init_signals \<lparr>tb = p0, flog = [Open ''formal_testbench.vcd'' (open_ok e)]\<rparr>"
  define s2 where "s2 = reset_loop r 0 s1"
  define s3 where "s3 = set_port reset_n_i 1 s2"
  define s4 where "s4 = run_loop stim r n 0 s3"
  let ?A = "range Eval \<union> range Dump \<union> range (\<lambda>(p, v). Write p v) :: (port \<Rightarrow> int) event set"
  have a1: "set (flog s1) \<subseteq> insert (Open ''formal_testbench.vcd'' (open_ok e)) ?A"
    by (auto simp: s1_def flog_init_signals)
  have a2: "set (flog s2) \<subseteq> set (flog s1) \<union> ?A"
    unfolding s2_def by (rule reset_loop_events)
  have a3: "set (flog s3) \<subseteq> set (flog s2) \<union> ?A"
    by (auto simp: s3_def set_port_def)
  have a4: "set (flog s4) \<subseteq> set (flog s3) \<union> ?A"
    unfolding s4_def by (rule run_loop_events)
  have sub: "set (flog s4) \<subseteq> insert (Open ''formal_testbench.vcd'' (open_ok e)) ?A"
    using a1 a2 a3 a4 by blast
  have "events (formal_run stim r n e p0) =
      flog s4 @ [Close (close_ok e), DeleteTrace, DeleteModel,
                 Print [Str ''Formal verification completed successfully\<newline>'']]"
    by (simp add: formal_run_def Let_def s1_def s2_def s3_def s4_def)
  with sub show ?thesis by blast
qed

lemma printed_none: "\<forall>os. Print os \<notin> set es \<Longrightarrow> printed es = []"
  by (induction es) (auto simp: printed_def split: event.splits)

lemma printed_formal_run:
  "printed (events (formal_run stim r n e p0)) =
     [[Str ''Formal verification completed successfully\<newline>'']]"
proof -
  obtain pre where ev: "events (formal_run stim r n e p0) =
      pre @ [Close (close_ok e), DeleteTrace, DeleteModel,
             Print [Str ''Formal verification completed successfully\<newline>'']]"
    and sub: "set pre \<subseteq> insert (Open ''formal_testbench.vcd'' (open_ok e))
                   (range Eval \<union> range Dump \<union> range (\<lambda>(p, v). Write p v))"
    using events_formal_run by blast
  have "printed pre = []"
    by (rule printed_none) (use sub in auto)
  then show ?thesis by (simp add: ev)
qed

lemma comp_loop_events:
  "set (vlog (fst (comp_loop ev fin b c s)))
     \<subseteq> set (vlog s) \<union> insert (Eval ()) (range Dump \<union> range GotFinish)"
proof (induction ev fin b c s rule: comp_loop.induct)
  case (1 ev fin b cycle s)
  show ?case
  proof (cases "\<not> fin (model s) \<and> cycle < b")
    case True
    then have nf: "\<not> fin (model s)" and lt: "cycle < b" by simp_all
    define s' where "s' = v_dump cycle (v_eval ev (got_finish fin s))"
    have st: "comp_loop ev fin b cycle s = comp_loop ev fin b (cycle + 1) s'"
      unfolding s'_def using nf lt by (rule comp_loop_step)
    have lg: "vlog s' = vlog s @ [GotFinish (fin (model s)), Eval (), Dump cycle]"
      unfolding s'_def by (rule vlog_comp_body)
    have "set (vlog (fst (comp_loop ev fin b (cycle + 1) s')))
            \<subseteq> set (vlog s') \<union> insert (Eval ()) (range Dump \<union> range GotFinish)"
      using "1.IH" [OF True] by (simp add: s'_def)
    then show ?thesis unfolding st lg by auto
  next
    case False
    then show ?thesis by (auto simp: comp_loop_stop got_finish_def)
  qed
qed

lemma events_comprehensive_run:
  "events (comprehensive_run ev fin b argv e m0) =
     vlog (fst (comp_loop ev fin b 0 \<lparr>model = m0, vlog = [Open (vcd_filename argv) (open_ok e)]\<rparr>))
     @ [Close (close_ok e), DeleteTrace, DeleteModel,
        Print [Str ''Comprehensive testbench simulation completed after '',
               Num (snd (comp_loop ev fin b 0 \<lparr>model = m0, vlog = [Open (vcd_filename argv) (open_ok e)]\<rparr>)),
               Str '' cycles.'', Endl]]"
  by (simp add: comprehensive_run_def Let_def split: prod.splits)

lemma comprehensive_counts:
  "reported (events (comprehensive_run ev fin b argv e m0)) =
     [int (length (evals (events (comprehensive_run ev fin b argv e m0))))]
   \<and> length (evals (events (comprehensive_run ev fin b argv e m0))) =
     length (dumps (events (comprehensive_run ev fin b argv e m0)))
   \<and> steps (events (comprehensive_run ev fin b argv e m0)) =
     concat (map (\<lambda>c. [Eval (), Dump c])
       [0..int (length (evals (events (comprehensive_run ev fin b argv e m0)))) - 1])
   \<and> printed (events (comprehensive_run ev fin b argv e m0)) =
     [[Str ''Comprehensive testbench simulation completed after '',
       Num (int (length (evals (events (comprehensive_run ev fin b argv e m0))))),
       Str '' cycles.'', Endl]]"
proof -
  define s0 :: "'a vsim" where "s0 = \<lparr>model = m0, vlog = [Open (vcd_filename argv) (open_ok e)]\<rparr>"
  define c where "c = snd (comp_loop ev fin b 0 s0)"
  define l where "l = vlog (fst (comp_loop ev fin b 0 s0))"
  have cnt: "int (length (evals l)) = c" "int (length (dumps l)) = c"
    "steps l = concat (map (\<lambda>j. [Eval (), Dump j]) [0..c - 1])" "printed l = []"
    using comp_loop_counts [of ev fin b 0 s0]
    by (simp_all add: l_def c_def s0_def)
  have rep: "reported l = []"
    using cnt(4) by (induction l) (auto simp: reported_def printed_def split: event.splits)
  show ?thesis
    unfolding events_comprehensive_run s0_def [symmetric] c_def [symmetric] l_def [symmetric]
    using cnt rep by (simp add: reported_def) 
qed

lemma printed_basic_run: "printed (events (basic_run ev fin tfp r n e m0)) = []"
proof -
  let ?l0 = "if tfp then [Open ''tb_mlow_codec_verilator.vcd'' (open_ok e)] else []"
  let ?pre = "vlog (basic_run_loop ev fin tfp r n 0 (basic_reset_loop ev tfp r 0
       \<lparr>model = m0, vlog = ?l0\<rparr>))"
  have sub: "set ?pre \<subseteq> set ?l0 \<union> insert (Eval ()) (range Dump \<union> range GotFinish)"
    by (rule basic_loops_events)
  have "printed ?pre = []"
    by (rule printed_none) (use sub in \<open>auto split: if_splits\<close>)
  then show ?thesis by (simp add: basic_run_def Let_def)
qed


lemma checks_append [simp]: "checks (xs @ ys) = checks xs @ checks ys"
  by (simp add: checks_def)

lemma checks_simps [simp]:
  "checks [] = []"
  "checks (GotFinish b # es) = b # checks es"
  "checks (Eval p # es) = checks es"
  "checks (Dump t # es) = checks es"
  "checks (Write q v # es) = checks es"
  "checks (Open f ok # es) = checks es"
  "checks (Close ok # es) = checks es"
  "checks (DeleteTrace # es) = checks es"
  "checks (Final # es) = checks es"
  "checks (DeleteModel # es) = checks es"
  "checks (Print os # es) = checks es"
  by (simp_all add: checks_def)

lemma teardown_append [simp]: "teardown (xs @ ys) = teardown xs @ teardown ys"
  by (simp add: teardown_def)

lemma teardown_simps [simp]:
  "teardown [] = []"
  "teardown (Close ok # es) = Close ok # teardown es"
  "teardown (DeleteTrace # es) = DeleteTrace # teardown es"
  "teardown (Final # es) = Final # teardown es"
  "teardown (DeleteModel # es) = DeleteModel # teardown es"
  "teardown (GotFinish b # es) = teardown es"
  "teardown (Eval p # es) = teardown es"
  "teardown (Dump t # es) = teardown es"
  "teardown (Write q v # es) = teardown es"
  "teardown (Open f ok # es) = teardown es"
  "teardown (Print os # es) = teardown es"
  by (simp_all add: teardown_def)

lemma checks_none: "\<forall>b. GotFinish b \<notin> set es \<Longrightarrow> checks es = []"
  by (induction es) (auto simp: checks_def split: event.splits)

lemma teardown_none:
  "\<forall>ok. Close ok \<notin> set es \<Longrightarrow> DeleteTrace \<notin> set es \<Longrightarrow> Final \<notin> set es \<Longrightarrow>
   DeleteModel \<notin> set es \<Longrightarrow> teardown es = []"
  by (induction es) (auto simp: teardown_def split: event.splits)

lemma checks_cycles:
  "checks (concat (map (\<lambda>c. [Eval (), Dump c, GotFinish (f c)]) xs)) = map f xs"
  by (induction xs) simp_all

lemma evals_cycles:
  "length (evals (concat (map (\<lambda>c. [Eval (), Dump c, GotFinish (f c)]) xs))) = length xs"
  by (induction xs) simp_all

lemma formal_prefix_quiet:
  assumes "set pre \<subseteq> insert (Open f ok) (range Eval \<union> range Dump \<union> range (\<lambda>(p, v). Write p v))"
  shows "checks pre = []" and "teardown pre = []"
proof -
  show "checks pre = []" by (rule checks_none) (use assms in auto)
  show "teardown pre = []" by (rule teardown_none) (use assms in auto)
qed

lemma loop_prefix_quiet:
  assumes "set pre \<subseteq> set l0 \<union> insert (Eval ()) (range Dump \<union> range GotFinish)"
    and "teardown l0 = []"
  shows "teardown pre = []"
proof -
  have "\<forall>x\<in>set l0. \<not> (case x of Close ok \<Rightarrow> True | DeleteTrace \<Rightarrow> True
                                       | Final \<Rightarrow> True | DeleteModel \<Rightarrow> True | _ \<Rightarrow> False)"
    using assms(2) by (simp add: teardown_def filter_empty_conv)
  then have "\<forall>x\<in>set pre. \<not> (case x of Close ok \<Rightarrow> True | DeleteTrace \<Rightarrow> True
                                       | Final \<Rightarrow> True | DeleteModel \<Rightarrow> True | _ \<Rightarrow> False)"
    using assms(1) by auto
  then show ?thesis by (simp add: teardown_def filter_empty_conv)
qed

lemma checks_formal_run: "checks (events (formal_run stim r n e p0)) = []"
proof -
  obtain pre where ev: "events (formal_run stim r n e p0) =
      pre @ [Close (close_ok e), DeleteTrace, DeleteModel,
             Print [Str ''Formal verification completed successfully\<newline>'']]"
    and sub: "set pre \<subseteq> insert (Open ''formal_testbench.vcd'' (open_ok e))
                   (range Eval \<union> range Dump \<union> range (\<lambda>(p, v). Write p v))"
    using events_formal_run by blast
  show ?thesis by (simp add: ev formal_prefix_quiet(1) [OF sub])
qed

lemma tail_formal_run:
  "\<exists>pre. events (formal_run stim r n e p0) =
      pre @ [Close (close_ok e), DeleteTrace, DeleteModel,
             Print [Str ''Formal verification completed successfully\<newline>'']]
    \<and> teardown pre = []"
proof -
  obtain pre where ev: "events (formal_run stim r n e p0) =
      pre @ [Close (close_ok e), DeleteTrace, DeleteModel,
             Print [Str ''Formal verification completed successfully\<newline>'']]"
    and sub: "set pre \<subseteq> insert (Open ''formal_testbench.vcd'' (open_ok e))
                   (range Eval \<union> range Dump \<union> range (\<lambda>(p, v). Write p v))"
    using events_formal_run by blast
  from ev formal_prefix_quiet(2) [OF sub] show ?thesis by blast
qed

lemma tail_comprehensive_run:
  "\<exists>pre. events (comprehensive_run ev fin b argv e m0) =
      pre @ [Close (close_ok e), DeleteTrace, DeleteModel,
             Print [Str ''Comprehensive testbench simulation completed after '',
                    Num (int (length (evals pre))), Str '' cycles.'', Endl]]
    \<and> teardown pre = []"
proof -
  define s0 :: "'a vsim" where "s0 = \<lparr>model = m0, vlog = [Open (vcd_filename argv) (open_ok e)]\<rparr>"
  define pre where "pre = vlog (fst (comp_loop ev fin b 0 s0))"
  have sub: "set pre \<subseteq> set (vlog s0) \<union> insert (Eval ()) (range Dump \<union> range GotFinish)"
    unfolding pre_def by (rule comp_loop_events)
  have td: "teardown pre = []"
    using sub by (rule loop_prefix_quiet) (simp add: s0_def)
  have cnt: "int (length (evals pre)) = snd (comp_loop ev fin b 0 s0)"
    using comp_loop_counts [of ev fin b 0 s0] by (simp add: pre_def s0_def)
  have "events (comprehensive_run ev fin b argv e m0) =
      pre @ [Close (close_ok e), DeleteTrace, DeleteModel,
             Print [Str ''Comprehensive testbench simulation completed after '',
                    Num (int (length (evals pre))), Str '' cycles.'', Endl]]"
    unfolding events_comprehensive_run s0_def [symmetric] pre_def [symmetric] cnt ..
  with td show ?thesis by blast
qed

lemma tail_basic_run_tracing:
  "\<exists>pre. events (basic_run ev fin True r n e m0) =
      pre @ [Close (close_ok e), DeleteTrace, Final, DeleteModel]
    \<and> teardown pre = []"
proof -
  let ?pre = "vlog (basic_run_loop ev fin True r n 0 (basic_reset_loop ev True r 0
       \<lparr>model = m0, vlog = [Open ''tb_mlow_codec_verilator.vcd'' (open_ok e)]\<rparr>))"
  have sub: "set ?pre \<subseteq> set [Open ''tb_mlow_codec_verilator.vcd'' (open_ok e)]
                \<union> insert (Eval ()) (range Dump \<union> range GotFinish)"
    by (rule basic_loops_events)
  have "teardown ?pre = []"
    using sub by (rule loop_prefix_quiet) simp
  with events_basic_run_tracing [of ev fin r n e m0] show ?thesis by blast
qed

lemma tail_basic_run_plain:
  "\<exists>pre. events (basic_run ev fin False r n e m0) = pre @ [Final, DeleteModel]
    \<and> teardown pre = []"
proof -
  let ?pre = "vlog (basic_run_loop ev fin False r n 0 (basic_reset_loop ev False r 0
       \<lparr>model = m0, vlog = []\<rparr>))"
  have sub: "set ?pre \<subseteq> set [] \<union> insert (Eval ()) (range Dump \<union> range GotFinish)"
    by (rule basic_loops_events)
  have "teardown ?pre = []"
    using sub by (rule loop_prefix_quiet) simp
  with events_basic_run_plain [of ev fin r n e m0] show ?thesis by blast
qed

lemma events_comprehensive_finish:
  assumes "\<forall>j\<le>k. \<not> fin ((ev ^^ j) m0)" and "fin ((ev ^^ Suc k) m0)" and "int k < b"
  shows "events (comprehensive_run ev fin b argv e m0) =
     [Open (vcd_filename argv) (open_ok e), GotFinish False] @
     concat (map (\<lambda>c. [Eval (), Dump c, GotFinish (c = int k)]) [0..int k]) @
     [Close (close_ok e), DeleteTrace, DeleteModel,
      Print [Str ''Comprehensive testbench simulation completed after '',
             Num (int k + 1), Str '' cycles.'', Endl]]"
proof -
  have "comp_loop ev fin b 0 \<lparr>model = m0, vlog = [Open (vcd_filename argv) (open_ok e)]\<rparr> =
     (\<lparr>model = (ev ^^ Suc k) m0,
       vlog = [Open (vcd_filename argv) (open_ok e)] @ [GotFinish False] @
              concat (map (\<lambda>j. [Eval (), Dump j, GotFinish (j = 0 + int k)]) [0..0 + int k])\<rparr>,
      0 + int k + 1)"
    using assms by (intro comp_loop_finishes) simp_all
  then show ?thesis
    by (simp add: events_comprehensive_run del: funpow.simps)
qed

lemma counts_comprehensive_finish:
  assumes "\<forall>j\<le>k. \<not> fin ((ev ^^ j) m0)" and "fin ((ev ^^ Suc k) m0)" and "int k < b"
  shows "length (checks (events (comprehensive_run ev fin b argv e m0))) = k + 2"
    and "length (evals (events (comprehensive_run ev fin b argv e m0))) = k + 1"
  by (simp_all add: events_comprehensive_finish [OF assms] checks_cycles evals_cycles)

section \<open>The clock sequencer and the reset of the formal driver\<close>

text \<open>
  C2, as amended. Every clock cycle of the formal driver, with cycle index \<open>c\<close>, makes
  exactly two evaluations of the model: it sets the clock input to 0, evaluates, captures
  at timestamp \<open>2c\<close>, then sets the clock input to 1, evaluates and captures at \<open>2c + 1\<close>.
  In each phase the evaluation comes ahead of the capture, and the model sees the clock
  value just assigned. (Both loops of \<^verbatim>\<open>formal_main.cpp\<close> run this cycle, with
  \<open>c = i\<close> and \<open>c = i + 5\<close>.)
\<close>

theorem step_cycle_two_phases:
  "flog (step_cycle c s) = flog s @
     [Write clk_i 0, Eval ((tb s)(clk_i := 0)), Dump (2 * c),
      Write clk_i 1, Eval ((tb s)(clk_i := 1)), Dump (2 * c + 1)]
   \<and> length (evals (flog (step_cycle c s))) = length (evals (flog s)) + 2
   \<and> view (flog (step_cycle c s)) = view (flog s) @
       [Evaluated (tb s reset_n_i) 0, Captured (2 * c),
        Evaluated (tb s reset_n_i) 1, Captured (2 * c + 1)]"
  by (simp add: flog_step_cycle mult.commute)

text \<open>
  C2 as the spec states it, for every cycle of every driver, fails on the loops of the
  basic driver (lines 23-33): each of their iterations makes one evaluation and one
  capture, at timestamp \<open>i\<close>, and no clock input is assigned. A run in which the model
  raises the finish flag at once: ten iterations of the reset loop and one of the main
  loop.
\<close>

theorem basic_iteration_single_evaluation:
  "steps (events (basic_main Suc (finish_in_cycle 0) True sink_ok 0)) =
     [Eval (), Dump 0, Eval (), Dump 1, Eval (), Dump 2, Eval (), Dump 3, Eval (), Dump 4,
      Eval (), Dump 5, Eval (), Dump 6, Eval (), Dump 7, Eval (), Dump 8, Eval (), Dump 9,
      Eval (), Dump 10]
   \<and> writes_to clk_i (events (basic_main Suc (finish_in_cycle 0) True sink_ok 0)) = []"
  by code_simp

text \<open>
  C3. In a run of the formal driver with \<open>r\<close> reset cycles (5 in the source) the model
  sees the reset input \<^verbatim>\<open>reset_n_i\<close> at 0 in both evaluations of exactly the cycles
  \<open>0..r - 1\<close>, while the clock toggles and every phase is captured, and at 1 in all the
  evaluations of the cycles after them. The port is assigned twice in the whole run: 0
  at initialisation and 1 once, after the reset loop; it is never assigned 0 again.
\<close>

theorem reset_held_then_released:
  "view (events (formal_run stimulus r n e p0)) =
     concat (map (cycle_view 0) [0..r - 1]) @ concat (map (cycle_view 1) [r..r + n - 1])
   \<and> writes_to reset_n_i (events (formal_run stimulus r n e p0)) = [0, 1]"
  using view_formal_run [OF stimulus_keeps_reset, of r n e p0]
    writes_reset_formal_run [OF stimulus_keeps_reset, of r n e p0]
  by (simp add: add.commute)

text \<open>
  C1, as amended. A run of the formal driver with \<open>r\<close> reset cycles and a main loop of
  \<open>n\<close> cycles (the budget; the driver never asks the model whether it has finished) makes
  exactly \<open>r + n\<close> clock cycles, with the cycle indices \<open>0..r + n - 1\<close>, and exactly
  \<open>2 (r + n)\<close> captures, whose timestamps are the sequence \<open>0..2 (r + n) - 1\<close>: strictly
  increasing, without gap or repeat. The reset cycles count: with budget \<open>n\<close> the run
  does not stop at timestamp \<open>2n - 1\<close>.
\<close>

theorem formal_run_timestamps:
  assumes "0 \<le> r" and "0 \<le> n"
  shows "view (events (formal_run stimulus r n e p0)) =
           concat (map (\<lambda>c. cycle_view (if c < r then 0 else 1) c) [0..r + n - 1])
         \<and> dumps (events (formal_run stimulus r n e p0)) = [0..2 * (r + n) - 1]
         \<and> int (length (dumps (events (formal_run stimulus r n e p0)))) = 2 * (r + n)
         \<and> sorted_wrt (<) (dumps (events (formal_run stimulus r n e p0)))"
  using view_formal_run [OF stimulus_keeps_reset, of r n e p0]
    dumps_formal_run [OF assms, of stimulus e p0] cycles_joined [OF assms] assms
  by simp

text \<open>The source's own run, 5 reset cycles and a budget of 200: 410 captures.\<close>

theorem formal_run_timestamps_witness:
  "(0::int) \<le> 5 \<and> (0::int) \<le> 200
   \<and> dumps (events (formal_main sink_ok zero_ports)) = [0..409]
   \<and> length (dumps (events (formal_main sink_ok zero_ports))) = 410"
  using formal_run_timestamps [of 5 200 sink_ok zero_ports]
  by (simp add: formal_main_def)

text \<open>
  C1 as the spec states it fails on that run: with the budget 200 the captures are not
  the 400 with timestamps \<open>0..399\<close>.
\<close>

theorem budget_200_gives_410_captures:
  "dumps (events (formal_main sink_ok zero_ports)) \<noteq> [0..2 * 200 - 1]
   \<and> length (dumps (events (formal_main sink_ok zero_ports))) \<noteq> 2 * 200"
proof -
  have d: "dumps (events (formal_main sink_ok zero_ports)) = [0..409]"
    using dumps_formal_run [of 5 200 stimulus sink_ok zero_ports]
    by (simp add: formal_main_def)
  have l: "length (dumps (events (formal_main sink_ok zero_ports))) = 410"
    by (simp add: d)
  have "length [0..409::int] \<noteq> length [0..2 * 200 - 1::int]" by simp
  then have "[0..409::int] \<noteq> [0..2 * 200 - 1]" by metis
  then show ?thesis using l by (simp add: d)
qed

section \<open>The stimulus of the formal driver\<close>

text \<open>
  C4. For every cycle index \<open>c\<close> and both stimulus windows of the formal driver,
  \<open>[10, 26)\<close> with base \<open>0x1234\<close> and \<open>[50, 66)\<close> with base \<open>0x5678\<close>: when \<open>c\<close> lies in
  the window, the stimulus of \<open>c\<close> leaves \<open>base + (c - start)\<close> on the data input and 1 on
  the valid input; when \<open>c\<close> lies outside both windows it leaves the valid input at 0. In
  particular the stimulus of 15 gives \<open>0x1239\<close>, valid, and the stimuli of 9 and of 26
  give an invalid input.
\<close>

theorem stimulus_windows:
  "(10 \<le> c \<and> c < 26 \<longrightarrow>
      tb (apply_writes (stimulus c) s) audio_data_i = 0x1234 + (c - 10)
      \<and> tb (apply_writes (stimulus c) s) audio_valid_i = 1)
   \<and> (50 \<le> c \<and> c < 66 \<longrightarrow>
      tb (apply_writes (stimulus c) s) audio_data_i = 0x5678 + (c - 50)
      \<and> tb (apply_writes (stimulus c) s) audio_valid_i = 1)
   \<and> (\<not> (10 \<le> c \<and> c < 26) \<and> \<not> (50 \<le> c \<and> c < 66) \<longrightarrow>
      tb (apply_writes (stimulus c) s) audio_valid_i = 0)
   \<and> tb (apply_writes (stimulus 15) s) audio_data_i = 0x1239
   \<and> tb (apply_writes (stimulus 15) s) audio_valid_i = 1
   \<and> tb (apply_writes (stimulus 9) s) audio_valid_i = 0
   \<and> tb (apply_writes (stimulus 26) s) audio_valid_i = 0"
  by (simp add: stimulus_def set_port_def)

text \<open>One cycle in each window and one outside both.\<close>

theorem stimulus_windows_witness:
  "(10::int) \<le> 15 \<and> (15::int) < 26
   \<and> tb (apply_writes (stimulus 15) \<lparr>tb = zero_ports, flog = []\<rparr>) audio_data_i = 0x1239
   \<and> tb (apply_writes (stimulus 15) \<lparr>tb = zero_ports, flog = []\<rparr>) audio_valid_i = 1
   \<and> (50::int) \<le> 55 \<and> (55::int) < 66
   \<and> tb (apply_writes (stimulus 55) \<lparr>tb = zero_ports, flog = []\<rparr>) audio_data_i = 0x567D
   \<and> tb (apply_writes (stimulus 55) \<lparr>tb = zero_ports, flog = []\<rparr>) audio_valid_i = 1
   \<and> \<not> ((10::int) \<le> 30 \<and> (30::int) < 26) \<and> \<not> ((50::int) \<le> 30 \<and> (30::int) < 66)
   \<and> tb (apply_writes (stimulus 30) \<lparr>tb = zero_ports, flog = []\<rparr>) audio_valid_i = 0"
  using stimulus_windows [of 15 "\<lparr>tb = zero_ports, flog = []\<rparr>"]
    stimulus_windows [of 55 "\<lparr>tb = zero_ports, flog = []\<rparr>"]
    stimulus_windows [of 30 "\<lparr>tb = zero_ports, flog = []\<rparr>"]
  by simp

text \<open>
  C5, as amended. In the main loop of the formal driver every iteration \<open>i\<close> runs the
  clock cycle first, both evaluations and both captures, and assigns the stimulus
  computed for \<open>i\<close> after it. So the audio input evaluated during iteration \<open>i + 1\<close> is
  the one computed for \<open>i\<close>, and iteration 0, like the reset cycles, evaluates the idle
  input of the initialisation.
\<close>

theorem stimulus_follows_cycle:
  "(i < n \<longrightarrow> run_loop stimulus r n i s =
       run_loop stimulus r n (i + 1) (apply_writes (stimulus i) (step_cycle (i + r) s)))
   \<and> flog (apply_writes (stimulus i) (step_cycle (i + r) s)) =
       flog s @ [Write clk_i 0, Eval ((tb s)(clk_i := 0)), Dump ((i + r) * 2),
                 Write clk_i 1, Eval ((tb s)(clk_i := 1)), Dump ((i + r) * 2 + 1)]
              @ map (\<lambda>(p, v). Write p v) (stimulus i)
   \<and> map seen (evals (events (formal_run stimulus r n e p0))) =
       concat (map (\<lambda>c. [None, None]) [0..r - 1]) @
       concat (map (\<lambda>j. [if j = 0 then None else computed (j - 1),
                          if j = 0 then None else computed (j - 1)]) [0..n - 1])"
  by (simp add: run_loop_step flog_apply_writes flog_step_cycle seen_formal_run)

text \<open>The first iteration of the source's main loop.\<close>

theorem stimulus_follows_cycle_witness:
  "(0::int) < 200
   \<and> run_loop stimulus 5 200 0 \<lparr>tb = zero_ports, flog = []\<rparr> =
       run_loop stimulus 5 200 1
         (apply_writes (stimulus 0) (step_cycle 5 \<lparr>tb = zero_ports, flog = []\<rparr>))"
  using stimulus_follows_cycle [of 0 200 5 "\<lparr>tb = zero_ports, flog = []\<rparr>" sink_ok zero_ports]
  by simp

text \<open>
  C5 as the spec states it fails in iteration 10 of the source's run (evaluations 30 and
  31 of the run): the stimulus computed for 10 is the valid word \<open>0x1234\<close>, and the model
  is offered no valid word in either evaluation of that iteration.
\<close>

theorem cycle_10_evaluates_stimulus_of_9:
  "computed 10 = Some 0x1234
   \<and> seen (evals (events (formal_main sink_ok zero_ports)) ! 30) = None
   \<and> seen (evals (events (formal_main sink_ok zero_ports)) ! 31) = None"
proof -
  let ?es = "evals (events (formal_main sink_ok zero_ports))"
  have len: "length ?es = 410"
    by (simp add: formal_main_def length_evals_formal_run)
  have m: "map seen ?es =
     concat (map (\<lambda>c. [None, None]) [0..5 - 1]) @
     concat (map (\<lambda>j. [if j = 0 then None else computed (j - 1),
                        if j = 0 then None else computed (j - 1)]) [0..200 - 1])"
    unfolding formal_main_def by (rule seen_formal_run)
  have n30: "(concat (map (\<lambda>c. [None, None]) [0..5 - 1]) @
     concat (map (\<lambda>j. [if j = 0 then None else computed (j - 1),
                        if j = 0 then None else computed (j - 1)]) [0..200 - 1])) ! 30 = None"
    by code_simp
  have n31: "(concat (map (\<lambda>c. [None, None]) [0..5 - 1]) @
     concat (map (\<lambda>j. [if j = 0 then None else computed (j - 1),
                        if j = 0 then None else computed (j - 1)]) [0..200 - 1])) ! 31 = None"
    by code_simp
  have "seen (?es ! 30) = map seen ?es ! 30" "seen (?es ! 31) = map seen ?es ! 31"
    using len by simp_all
  then show ?thesis
    using n30 n31 by (simp only: m computed_eq) simp
qed

section \<open>Termination on the finish flag\<close>

text \<open>
  C6, as amended. In a run of the comprehensive driver with cycle budget \<open>b\<close>, let the
  model raise the finish flag in the evaluation of cycle \<open>k\<close>, with \<open>k < b\<close>: the flag is
  down in the initial state and after each of the first \<open>k\<close> evaluations, and up after
  evaluation number \<open>k + 1\<close>. Then the run executes exactly the cycles \<open>0..k\<close> and stops:
  cycle \<open>k\<close> is the last one, \<open>k + 1\<close> cycles are reported, the budget is not exhausted.
  The flag is asked once when the loop is entered, ahead of cycle 0, and once after the
  evaluation and capture of each cycle, ahead of the next one: \<open>k + 2\<close> times for the
  \<open>k + 1\<close> cycles. The formal driver never asks for the flag: each of its runs makes all
  the evaluations of its \<open>r + n\<close> cycles.
\<close>

theorem comprehensive_stops_at_finish:
  assumes "\<forall>j\<le>k. \<not> fin ((ev ^^ j) m0)" and "fin ((ev ^^ Suc k) m0)" and "int k < b"
  shows "events (comprehensive_run ev fin b argv e m0) =
     [Open (vcd_filename argv) (open_ok e), GotFinish False] @
     concat (map (\<lambda>c. [Eval (), Dump c, GotFinish (c = int k)]) [0..int k]) @
     [Close (close_ok e), DeleteTrace, DeleteModel,
      Print [Str ''Comprehensive testbench simulation completed after '',
             Num (int k + 1), Str '' cycles.'', Endl]]
   \<and> length (evals (events (comprehensive_run ev fin b argv e m0))) = k + 1
   \<and> length (checks (events (comprehensive_run ev fin b argv e m0))) = k + 2
   \<and> checks (events (formal_run stim r n e' p0)) = []
   \<and> length (evals (events (formal_run stim r n e' p0))) = 2 * nat r + 2 * nat n"
  using events_comprehensive_finish [OF assms, of argv e]
    counts_comprehensive_finish [OF assms, of argv e]
    checks_formal_run [of stim r n e' p0] length_evals_formal_run [of stim r n e' p0]
  by simp

text \<open>The spec's example: completion in cycle 42 under a budget of 1000.\<close>

theorem comprehensive_stops_at_finish_witness:
  "events (comprehensive_run Suc (finish_in_cycle 42) 1000 [] sink_ok 0) =
     [Open ''tb_mlow_codec_comprehensive.vcd'' True, GotFinish False] @
     concat (map (\<lambda>c. [Eval (), Dump c, GotFinish (c = 42)]) [0..42]) @
     [Close True, DeleteTrace, DeleteModel,
      Print [Str ''Comprehensive testbench simulation completed after '',
             Num 43, Str '' cycles.'', Endl]]
   \<and> length (evals (events (comprehensive_run Suc (finish_in_cycle 42) 1000 [] sink_ok 0))) = 43
   \<and> length (checks (events (comprehensive_run Suc (finish_in_cycle 42) 1000 [] sink_ok 0))) = 44"
proof -
  have a: "\<forall>j\<le>42. \<not> finish_in_cycle 42 ((Suc ^^ j) 0)"
    and b: "finish_in_cycle 42 ((Suc ^^ Suc 42) 0)" and c: "int 42 < 1000"
    by (simp_all add: finish_in_cycle_def)
  from comprehensive_stops_at_finish [OF a b c, of "[]" sink_ok] show ?thesis
    by (simp add: vcd_filename_def sink_ok_def checks_cycles evals_cycles)
qed

text \<open>
  C6 as the spec states it, for every run, fails on the formal driver, whose run makes
  its 410 evaluations and never asks for the finish flag; and in the comprehensive
  driver the flag is asked 44 times for the 43 cycles of the example, not once per
  cycle.
\<close>

theorem formal_run_ignores_finish:
  "checks (events (formal_main sink_ok zero_ports)) = []
   \<and> length (evals (events (formal_main sink_ok zero_ports))) = 410
   \<and> length (evals (events (comprehensive_run Suc (finish_in_cycle 42) 1000 [] sink_ok 0))) = 43
   \<and> length (checks (events (comprehensive_run Suc (finish_in_cycle 42) 1000 [] sink_ok 0))) = 44"
proof -
  have a: "\<forall>j\<le>42. \<not> finish_in_cycle 42 ((Suc ^^ j) 0)"
    and b: "finish_in_cycle 42 ((Suc ^^ Suc 42) 0)" and c: "int 42 < 1000"
    by (simp_all add: finish_in_cycle_def)
  show ?thesis
    using counts_comprehensive_finish [OF a b c, of "[]" sink_ok]
    by (simp add: formal_main_def checks_formal_run length_evals_formal_run)
qed

section \<open>Exit codes and messages\<close>

text \<open>
  C7, as amended. Every run of each of the three drivers returns the exit code 0,
  whatever the outcome of opening and closing the trace file: no driver asks for it. On
  completion the comprehensive driver prints one message that reports the number of
  cycles executed, the formal driver prints one fixed message without a count, and the
  basic driver prints nothing.
\<close>

theorem exit_code_always_zero:
  "exit_code (formal_main e p0) = 0
   \<and> exit_code (basic_main ev fin tfp e m0) = 0
   \<and> exit_code (comprehensive_main ev' fin' argv e m0') = 0
   \<and> printed (events (comprehensive_main ev' fin' argv e m0')) =
       [[Str ''Comprehensive testbench simulation completed after '',
         Num (int (length (evals (events (comprehensive_main ev' fin' argv e m0'))))),
         Str '' cycles.'', Endl]]
   \<and> printed (events (formal_main e p0)) =
       [[Str ''Formal verification completed successfully\<newline>'']]
   \<and> printed (events (basic_main ev fin tfp e m0)) = []"
proof -
  have "exit_code (formal_main e p0) = 0"
    by (simp add: formal_main_def formal_run_def Let_def)
  moreover have "exit_code (basic_main ev fin tfp e m0) = 0"
    by (simp add: basic_main_def basic_run_def Let_def)
  moreover have "exit_code (comprehensive_main ev' fin' argv e m0') = 0"
    by (simp add: comprehensive_main_def comprehensive_run_def Let_def split: prod.splits)
  moreover note comprehensive_counts [of ev' fin' 50000 argv e m0']
    printed_formal_run [of stimulus 5 200 e p0] printed_basic_run [of ev fin tfp 10 10000 e m0]
  ultimately show ?thesis
    by (simp add: formal_main_def basic_main_def comprehensive_main_def)
qed

text \<open>
  C7 as the spec states it fails when the trace file cannot be opened: the exit code is
  still 0.
\<close>

theorem unopened_sink_exits_zero:
  "\<not> open_ok sink_unopened
   \<and> exit_code (comprehensive_main Suc (finish_in_cycle 42) [] sink_unopened 0) = 0
   \<and> exit_code (formal_main sink_unopened zero_ports) = 0"
  by (simp add: sink_unopened_def comprehensive_main_def comprehensive_run_def Let_def
        formal_main_def formal_run_def split: prod.splits)

section \<open>The order of the teardown\<close>

text \<open>
  C9, as amended. Every run of the basic driver with tracing compiled in ends with these
  four calls, and makes none of them earlier: the trace file is closed, the trace object
  is released, the model's \<^verbatim>\<open>final()\<close> is called, the model is released. So the
  finalize comes after the close and the release of the trace, and ahead of the release
  of the model. Without tracing the run ends with the finalize and the release of the
  model. The formal and the comprehensive driver never call \<^verbatim>\<open>final()\<close>: their
  runs end with the close of the trace file, the release of the trace object, the
  release of the model and the completion message.
\<close>

theorem finalize_after_close:
  "(\<exists>pre. events (basic_main ev fin True e m0) =
        pre @ [Close (close_ok e), DeleteTrace, Final, DeleteModel] \<and> teardown pre = [])
   \<and> (\<exists>pre. events (basic_main ev fin False e m0) = pre @ [Final, DeleteModel]
        \<and> teardown pre = [])
   \<and> (\<exists>pre. events (formal_main e p0) =
        pre @ [Close (close_ok e), DeleteTrace, DeleteModel,
               Print [Str ''Formal verification completed successfully\<newline>'']]
        \<and> teardown pre = [])
   \<and> (\<exists>pre. events (comprehensive_main ev' fin' argv e m0') =
        pre @ [Close (close_ok e), DeleteTrace, DeleteModel,
               Print [Str ''Comprehensive testbench simulation completed after '',
                      Num (int (length (evals pre))), Str '' cycles.'', Endl]]
        \<and> teardown pre = [])
   \<and> teardown (events (basic_main ev fin True e m0)) =
        [Close (close_ok e), DeleteTrace, Final, DeleteModel]
   \<and> teardown (events (basic_main ev fin False e m0)) = [Final, DeleteModel]
   \<and> teardown (events (formal_main e p0)) = [Close (close_ok e), DeleteTrace, DeleteModel]
   \<and> teardown (events (comprehensive_main ev' fin' argv e m0')) =
        [Close (close_ok e), DeleteTrace, DeleteModel]
   \<and> before (Close (close_ok e)) Final (events (basic_main ev fin True e m0))
   \<and> \<not> before Final (Close (close_ok e)) (events (basic_main ev fin True e m0))"
proof -
  note t1 = tail_basic_run_tracing [of ev fin 10 10000 e m0]
  note t2 = tail_basic_run_plain [of ev fin 10 10000 e m0]
  note t3 = tail_formal_run [of stimulus 5 200 e p0]
  note t4 = tail_comprehensive_run [of ev' fin' 50000 argv e m0']
  have p1: "teardown (events (basic_run ev fin True 10 10000 e m0)) =
        [Close (close_ok e), DeleteTrace, Final, DeleteModel]"
    using t1 by auto
  have p2: "teardown (events (basic_run ev fin False 10 10000 e m0)) = [Final, DeleteModel]"
    using t2 by auto
  have p3: "teardown (events (formal_run stimulus 5 200 e p0)) =
        [Close (close_ok e), DeleteTrace, DeleteModel]"
    using t3 by auto
  have p4: "teardown (events (comprehensive_run ev' fin' 50000 argv e m0')) =
        [Close (close_ok e), DeleteTrace, DeleteModel]"
    using t4 by auto
  show ?thesis
    unfolding basic_main_def formal_main_def comprehensive_main_def
    using t1 t2 t3 t4 p1 p2 p3 p4 basic_close_then_final [of e ev fin 10 10000 m0]
    by simp
qed

text \<open>
  C9 as the spec states it fails on a run of the basic driver: the close is ahead of
  the finalize, not after it.
\<close>

theorem basic_closes_before_final:
  "before (Close True) Final (events (basic_main Suc (finish_in_cycle 0) True sink_ok 0))
   \<and> \<not> before Final (Close True) (events (basic_main Suc (finish_in_cycle 0) True sink_ok 0))
   \<and> teardown (events (basic_main Suc (finish_in_cycle 0) True sink_ok 0)) =
        [Close True, DeleteTrace, Final, DeleteModel]"
proof -
  have "teardown (events (basic_run Suc (finish_in_cycle 0) True 10 10000 sink_ok 0)) =
        [Close (close_ok sink_ok), DeleteTrace, Final, DeleteModel]"
    using tail_basic_run_tracing [of Suc "finish_in_cycle 0" 10 10000 sink_ok 0] by auto
  then show ?thesis
    using basic_close_then_final [of sink_ok Suc "finish_in_cycle 0" 10 10000 0]
    by (simp add: basic_main_def sink_ok_def)
qed

section \<open>The cycle count of the comprehensive driver\<close>

text \<open>
  C10. In every run of the comprehensive driver the count in the completion message is
  the number of evaluations made and the number of captures made: the evaluations and
  captures of the run are, in this order, one evaluation and one capture with timestamp
  \<open>c\<close> for each \<open>c\<close> from 0 to the count less one.
\<close>

theorem reported_cycles_are_evaluations:
  "reported (events (comprehensive_main ev fin argv e m0)) =
     [int (length (evals (events (comprehensive_main ev fin argv e m0))))]
   \<and> length (evals (events (comprehensive_main ev fin argv e m0))) =
     length (dumps (events (comprehensive_main ev fin argv e m0)))
   \<and> steps (events (comprehensive_main ev fin argv e m0)) =
     concat (map (\<lambda>c. [Eval (), Dump c])
       [0..int (length (evals (events (comprehensive_main ev fin argv e m0)))) - 1])"
  using comprehensive_counts [of ev fin 50000 argv e m0]
  by (simp add: comprehensive_main_def)

end
